theory Spec2Isabelle
  imports Main
begin

section \<open>Library functions the program calls on strings\<close>

text \<open>
  Go strings are byte sequences; \<^typ>\<open>string\<close> is used the same way here, one
  \<^typ>\<open>char\<close> per byte, so a code point outside ASCII is its UTF-8 bytes.
  A Go \<open>error\<close> value is represented by its message.
\<close>

type_synonym err = string

subsection \<open>\<open>strings.TrimSpace\<close>\<close>

text \<open>
  \<open>strings.TrimSpace\<close> removes every leading and trailing rune for which
  \<open>unicode.IsSpace\<close> holds. These are the UTF-8 encodings of those runes: the six
  ASCII ones, U+0085, U+00A0, U+1680, U+2000 to U+200A, U+2028, U+2029, U+202F,
  U+205F and U+3000. A byte sequence that is not one of these encodings decodes to
  another rune (or to the replacement rune) and stops the trimming.
\<close>

definition spaceEncodings :: "string list" where
  "spaceEncodings =
     [[CHR 0x09], [CHR 0x0A], [CHR 0x0B], [CHR 0x0C], [CHR 0x0D], [CHR 0x20],
      [CHR 0xC2, CHR 0x85], [CHR 0xC2, CHR 0xA0],
      [CHR 0xE1, CHR 0x9A, CHR 0x80],
      [CHR 0xE2, CHR 0x80, CHR 0x80], [CHR 0xE2, CHR 0x80, CHR 0x81],
      [CHR 0xE2, CHR 0x80, CHR 0x82], [CHR 0xE2, CHR 0x80, CHR 0x83],
      [CHR 0xE2, CHR 0x80, CHR 0x84], [CHR 0xE2, CHR 0x80, CHR 0x85],
      [CHR 0xE2, CHR 0x80, CHR 0x86], [CHR 0xE2, CHR 0x80, CHR 0x87],
      [CHR 0xE2, CHR 0x80, CHR 0x88], [CHR 0xE2, CHR 0x80, CHR 0x89],
      [CHR 0xE2, CHR 0x80, CHR 0x8A],
      [CHR 0xE2, CHR 0x80, CHR 0xA8], [CHR 0xE2, CHR 0x80, CHR 0xA9],
      [CHR 0xE2, CHR 0x80, CHR 0xAF],
      [CHR 0xE2, CHR 0x81, CHR 0x9F],
      [CHR 0xE3, CHR 0x80, CHR 0x80]]"

definition leadingSpace :: "string \<Rightarrow> nat" where
  \<comment> \<open>width in bytes of the white-space rune the string starts with, 0 if there is none\<close>
  "leadingSpace s =
     (case find (\<lambda>e. take (length e) s = e) spaceEncodings of
        None \<Rightarrow> 0 | Some e \<Rightarrow> length e)"

definition trailingSpace :: "string \<Rightarrow> nat" where
  \<comment> \<open>width in bytes of the white-space rune the string ends with, 0 if there is none\<close>
  "trailingSpace s =
     (case find (\<lambda>e. length e \<le> length s \<and> drop (length s - length e) s = e) spaceEncodings of
        None \<Rightarrow> 0 | Some e \<Rightarrow> length e)"

function TrimLeftSpace :: "string \<Rightarrow> string" where
  "TrimLeftSpace s =
     (if leadingSpace s = 0 then s else TrimLeftSpace (drop (leadingSpace s) s))"
  by pat_completeness auto
termination
proof (relation "measure length")
  show "wf (measure length)" by simp
next
  fix s :: string
  assume nz: "leadingSpace s \<noteq> 0"
  have "leadingSpace [] = 0"
    by (simp add: leadingSpace_def spaceEncodings_def)
  with nz have "s \<noteq> []" by auto
  with nz show "(drop (leadingSpace s) s, s) \<in> measure length"
    by simp
qed

declare TrimLeftSpace.simps [simp del]

function TrimRightSpace :: "string \<Rightarrow> string" where
  "TrimRightSpace s =
     (if trailingSpace s = 0 then s
      else TrimRightSpace (take (length s - trailingSpace s) s))"
  by pat_completeness auto
termination
proof (relation "measure length")
  show "wf (measure length)" by simp
next
  fix s :: string
  assume nz: "trailingSpace s \<noteq> 0"
  have "trailingSpace [] = 0"
    by (simp add: trailingSpace_def spaceEncodings_def)
  with nz have "s \<noteq> []" by auto
  with nz show "(take (length s - trailingSpace s) s, s) \<in> measure length"
    by simp
qed

declare TrimRightSpace.simps [simp del]

definition TrimSpace :: "string \<Rightarrow> string" where
  "TrimSpace s = TrimRightSpace (TrimLeftSpace s)"

subsection \<open>\<open>url.QueryEscape\<close>\<close>

text \<open>
  \<open>url.QueryEscape\<close> keeps ASCII letters, digits and \<open>- _ . ~\<close>, writes a space
  as \<open>+\<close> and every other byte as \<open>%\<close> followed by its two upper-case hexadecimal
  digits.
\<close>

definition upperhex :: string where
  "upperhex = ''0123456789ABCDEF''"

definition shouldEscape :: "char \<Rightarrow> bool" where
  "shouldEscape c \<longleftrightarrow>
     \<not> ((of_char (CHR ''a'') \<le> (of_char c :: nat) \<and> (of_char c :: nat) \<le> of_char (CHR ''z''))
        \<or> (of_char (CHR ''A'') \<le> (of_char c :: nat) \<and> (of_char c :: nat) \<le> of_char (CHR ''Z''))
        \<or> (of_char (CHR ''0'') \<le> (of_char c :: nat) \<and> (of_char c :: nat) \<le> of_char (CHR ''9''))
        \<or> c \<in> {CHR ''-'', CHR ''_'', CHR ''.'', CHR ''~''})"

definition escapeByte :: "char \<Rightarrow> string" where
  "escapeByte c =
     (if c = CHR '' '' then ''+''
      else if shouldEscape c
        then [CHR ''%'', upperhex ! (of_char c div 16), upperhex ! (of_char c mod 16)]
      else [c])"

definition QueryEscape :: "string \<Rightarrow> string" where
  "QueryEscape s = concat (map escapeByte s)"

subsection \<open>\<open>bufio.Scanner\<close> with its default split function\<close>

text \<open>
  The scanner cuts the bytes it reads at every line feed, removes one carriage return
  from the end of each line, and returns a last line that has no line feed when it is
  not empty. Its buffer holds \<open>MaxScanTokenSize\<close> bytes: a line that does not fit,
  line feed included, ends the scan with \<open>ErrTooLong\<close> after the lines before it.
\<close>

definition MaxScanTokenSize :: nat where
  "MaxScanTokenSize = 64 * 1024"

definition ErrTooLong :: err where
  "ErrTooLong = ''bufio.Scanner: token too long''"

definition dropCR :: "string \<Rightarrow> string" where
  "dropCR l = (if l \<noteq> [] \<and> last l = CHR 0x0D then butlast l else l)"

fun ScanLines :: "string \<Rightarrow> string \<Rightarrow> string list \<times> err option" where
  "ScanLines cur [] =
     (if MaxScanTokenSize \<le> length cur then ([], Some ErrTooLong)
      else if cur = [] then ([], None)
      else ([dropCR cur], None))"
| "ScanLines cur (c # cs) =
     (if c = CHR 0x0A then
        (if MaxScanTokenSize \<le> length cur then ([], Some ErrTooLong)
         else (dropCR cur # fst (ScanLines [] cs), snd (ScanLines [] cs)))
      else ScanLines (cur @ [c]) cs)"

subsection \<open>\<open>fmt.Sprintf\<close>\<close>

text \<open>
  The program formats with the verbs \<open>%s\<close>, \<open>%v\<close>, \<open>%d\<close> and \<open>%w\<close> only, on
  strings, errors and one integer; each prints its operand's text, so the operands
  are passed already rendered. A verb with no operand left prints Go's
  \<open>%!v(MISSING)\<close>; every call in the program passes as many operands as verbs.
\<close>

fun Sprintf :: "string \<Rightarrow> string list \<Rightarrow> string" where
  "Sprintf [] operands = []"
| "Sprintf [c] operands = [c]"
| "Sprintf (c # v # fs) operands =
     (if c = CHR ''%'' \<and> v \<in> {CHR ''s'', CHR ''v'', CHR ''d'', CHR ''w''} then
        (case operands of
           [] \<Rightarrow> ''%!'' @ [v] @ ''(MISSING)'' @ Sprintf fs []
         | a # rest \<Rightarrow> a @ Sprintf fs rest)
      else c # Sprintf (v # fs) operands)"

declare Sprintf.simps [simp del]

text \<open>\<open>%d\<close> on a non-negative integer: its decimal digits.\<close>

function Itoa :: "nat \<Rightarrow> string" where
  "Itoa n = (if n < 10 then [''0123456789'' ! n] else Itoa (n div 10) @ [''0123456789'' ! (n mod 10)])"
  by pat_completeness auto
termination
  by (relation "measure id") auto

declare Itoa.simps [simp del]

section \<open>The process and its collaborators\<close>

text \<open>
  Everything the program does to the outside is a call to a collaborator: the
  operating system (files, console, clock, exit), the ChromeDriver service and the
  WebDriver session. The model records each call with its reply in a trace, and takes
  the replies from an environment that answers the \<open>k\<close>-th call of a run. Durations
  and clock readings are in nanoseconds, as \<open>time.Duration\<close> is.
\<close>

type_synonym element = nat

datatype locator = ByXPATH | ByCSSSelector

datatype flag = O_APPEND | O_CREATE | O_WRONLY

datatype call =
    Stat string
  | MkdirAll string nat
  | Stdout string
  | Stderr string
  | NowFormat string
  | OpenFile string "flag list" nat
  | WriteString string string
  | FileClose string
  | NewChromeDriverService string nat
  | ServiceStop
  | Abs string
  | NewRemote string "string list" string
  | Quit
  | Get string
  | FindElement locator string
  | IsDisplayed element
  | IsEnabled element
  | Click element
  | SendKeys element string
  | Sleep nat
  | Open string
  | Scan string
  | ReadFile string
  | Exit nat

datatype reply = Done | Failed err | Element element | Flag bool | Text string | Truncated string err

datatype event = Ev call reply

record env =
  reply_elapsed :: "nat \<Rightarrow> nat"
  reply_error :: "nat \<Rightarrow> call \<Rightarrow> err option"
  reply_element :: "nat \<Rightarrow> call \<Rightarrow> element"
  reply_flag :: "nat \<Rightarrow> call \<Rightarrow> bool"
  reply_text :: "nat \<Rightarrow> call \<Rightarrow> string"
  isNotExist :: "err \<Rightarrow> bool"
  pathJoin :: "string \<Rightarrow> string \<Rightarrow> string"

record world =
  argv :: "string list"
  clock :: nat
  calls :: nat
  trace :: "event list"

text \<open>
  \<open>argv\<close> is the argument vector the process was started with (\<open>os.Args\<close>),
  \<open>clock\<close> the monotonic clock, \<open>calls\<close> the number of collaborator calls made so
  far and \<open>trace\<close> those calls, oldest first. \<open>reply_elapsed env k\<close> is the time the
  \<open>k\<close>-th call takes; \<open>isNotExist\<close> is \<open>os.IsNotExist\<close> and \<open>pathJoin\<close> is
  \<open>filepath.Join\<close>, both fixed by the platform.
\<close>

definition perform :: "env \<Rightarrow> call \<Rightarrow> reply \<Rightarrow> world \<Rightarrow> world" where
  "perform env c r w =
     w\<lparr>clock := clock w + reply_elapsed env (calls w),
       calls := Suc (calls w),
       trace := trace w @ [Ev c r]\<rparr>"

definition attempt :: "env \<Rightarrow> call \<Rightarrow> world \<Rightarrow> err option \<times> world" where
  \<comment> \<open>a call that returns an error or nil\<close>
  "attempt env c w =
     (case reply_error env (calls w) c of
        None \<Rightarrow> (None, perform env c Done w)
      | Some e \<Rightarrow> (Some e, perform env c (Failed e) w))"

definition emit :: "env \<Rightarrow> call \<Rightarrow> world \<Rightarrow> world" where
  \<comment> \<open>a call whose results the program discards\<close>
  "emit env c w = snd (attempt env c w)"

definition fetch :: "env \<Rightarrow> call \<Rightarrow> world \<Rightarrow> (err + string) \<times> world" where
  \<comment> \<open>a call that returns a string and an error\<close>
  "fetch env c w =
     (case reply_error env (calls w) c of
        None \<Rightarrow> (Inr (reply_text env (calls w) c), perform env c (Text (reply_text env (calls w) c)) w)
      | Some e \<Rightarrow> (Inl e, perform env c (Failed e) w))"

definition query :: "env \<Rightarrow> call \<Rightarrow> world \<Rightarrow> bool \<times> world" where
  \<comment> \<open>a call that returns a truth value and an error the program discards\<close>
  "query env c w = (reply_flag env (calls w) c, perform env c (Flag (reply_flag env (calls w) c)) w)"

definition os_Stat :: "env \<Rightarrow> string \<Rightarrow> world \<Rightarrow> err option \<times> world" where
  "os_Stat env path = attempt env (Stat path)"

definition os_MkdirAll :: "env \<Rightarrow> string \<Rightarrow> nat \<Rightarrow> world \<Rightarrow> err option \<times> world" where
  "os_MkdirAll env path perm = attempt env (MkdirAll path perm)"

definition os_IsNotExist :: "env \<Rightarrow> err option \<Rightarrow> bool" where
  "os_IsNotExist env e = (case e of None \<Rightarrow> False | Some m \<Rightarrow> isNotExist env m)"

definition fmt_Print :: "env \<Rightarrow> string \<Rightarrow> world \<Rightarrow> world" where
  "fmt_Print env s = emit env (Stdout s)"

definition log_Printf :: "env \<Rightarrow> string \<Rightarrow> world \<Rightarrow> world" where
  \<comment> \<open>the call records the message given to the standard logger, which writes it to the
      standard error stream after its own date and time and ends the line\<close>
  "log_Printf env s = emit env (Stderr s)"

definition os_Exit :: "env \<Rightarrow> nat \<Rightarrow> world \<Rightarrow> world" where
  "os_Exit env code = perform env (Exit code) Done"

definition log_Fatalf :: "env \<Rightarrow> string \<Rightarrow> world \<Rightarrow> world" where
  \<comment> \<open>\<open>log.Fatalf\<close> is \<open>log.Printf\<close> followed by \<open>os.Exit(1)\<close>\<close>
  "log_Fatalf env s w = os_Exit env 1 (log_Printf env s w)"

definition time_Now_Format :: "env \<Rightarrow> string \<Rightarrow> world \<Rightarrow> string \<times> world" where
  \<comment> \<open>\<open>time.Now().Format(layout)\<close>: the wall clock, rendered\<close>
  "time_Now_Format env layout w =
     (reply_text env (calls w) (NowFormat layout),
      perform env (NowFormat layout) (Text (reply_text env (calls w) (NowFormat layout))) w)"

definition time_Sleep :: "env \<Rightarrow> nat \<Rightarrow> world \<Rightarrow> world" where
  \<comment> \<open>pauses for at least the duration\<close>
  "time_Sleep env d w = perform env (Sleep d) Done (w\<lparr>clock := clock w + d\<rparr>)"

definition os_OpenFile :: "env \<Rightarrow> string \<Rightarrow> flag list \<Rightarrow> nat \<Rightarrow> world \<Rightarrow> err option \<times> world" where
  "os_OpenFile env path flags perm = attempt env (OpenFile path flags perm)"

definition file_WriteString :: "env \<Rightarrow> string \<Rightarrow> string \<Rightarrow> world \<Rightarrow> err option \<times> world" where
  "file_WriteString env file s = attempt env (WriteString file s)"

definition file_Close :: "env \<Rightarrow> string \<Rightarrow> world \<Rightarrow> world" where
  "file_Close env file = emit env (FileClose file)"

definition os_Open :: "env \<Rightarrow> string \<Rightarrow> world \<Rightarrow> err option \<times> world" where
  "os_Open env path = attempt env (Open path)"

definition scanner_Scan :: "env \<Rightarrow> string \<Rightarrow> world \<Rightarrow> (string list \<times> err option) \<times> world" where
  \<comment> \<open>the scanner reads the open file to its end or to the first read error: the
      environment gives the bytes read and that error, the scanner cuts the lines\<close>
  "scanner_Scan env file w =
     (let bytes = reply_text env (calls w) (Scan file);
          readErr = reply_error env (calls w) (Scan file);
          w' = perform env (Scan file)
                 (case readErr of None \<Rightarrow> Text bytes | Some e \<Rightarrow> Truncated bytes e) w
      in case ScanLines [] bytes of
           (ls, Some e) \<Rightarrow> ((ls, Some e), w')
         | (ls, None) \<Rightarrow> ((ls, readErr), w'))"

definition os_ReadFile :: "env \<Rightarrow> string \<Rightarrow> world \<Rightarrow> (err + string) \<times> world" where
  "os_ReadFile env path = fetch env (ReadFile path)"

definition filepath_Abs :: "env \<Rightarrow> string \<Rightarrow> world \<Rightarrow> (err + string) \<times> world" where
  "filepath_Abs env path = fetch env (Abs path)"

definition selenium_NewChromeDriverService :: "env \<Rightarrow> string \<Rightarrow> nat \<Rightarrow> world \<Rightarrow> err option \<times> world" where
  "selenium_NewChromeDriverService env path port = attempt env (NewChromeDriverService path port)"

definition service_Stop :: "env \<Rightarrow> world \<Rightarrow> world" where
  "service_Stop env = emit env ServiceStop"

definition selenium_NewRemote :: "env \<Rightarrow> string \<Rightarrow> string list \<Rightarrow> string \<Rightarrow> world \<Rightarrow> err option \<times> world" where
  "selenium_NewRemote env browser chromeArgs url = attempt env (NewRemote browser chromeArgs url)"

definition wd_Quit :: "env \<Rightarrow> world \<Rightarrow> world" where
  "wd_Quit env = emit env Quit"

definition wd_Get :: "env \<Rightarrow> string \<Rightarrow> world \<Rightarrow> err option \<times> world" where
  "wd_Get env url = attempt env (Get url)"

definition wd_FindElement :: "env \<Rightarrow> locator \<Rightarrow> string \<Rightarrow> world \<Rightarrow> (err + element) \<times> world" where
  "wd_FindElement env b sel w =
     (case reply_error env (calls w) (FindElement b sel) of
        None \<Rightarrow> (Inr (reply_element env (calls w) (FindElement b sel)),
                 perform env (FindElement b sel) (Element (reply_element env (calls w) (FindElement b sel))) w)
      | Some e \<Rightarrow> (Inl e, perform env (FindElement b sel) (Failed e) w))"

definition element_IsDisplayed :: "env \<Rightarrow> element \<Rightarrow> world \<Rightarrow> bool \<times> world" where
  "element_IsDisplayed env el = query env (IsDisplayed el)"

definition element_IsEnabled :: "env \<Rightarrow> element \<Rightarrow> world \<Rightarrow> bool \<times> world" where
  "element_IsEnabled env el = query env (IsEnabled el)"

definition element_Click :: "env \<Rightarrow> element \<Rightarrow> world \<Rightarrow> err option \<times> world" where
  "element_Click env el = attempt env (Click el)"

definition element_SendKeys :: "env \<Rightarrow> element \<Rightarrow> string \<Rightarrow> world \<Rightarrow> err option \<times> world" where
  "element_SendKeys env el keys = attempt env (SendKeys el keys)"

section \<open>The program\<close>

subsection \<open>Compiled-in constants\<close>

definition chromeDriverPath :: string where
  "chromeDriverPath = ''chromedriver-win64'' @ [CHR 0x5C] @ ''chromedriver.exe''"

definition useProfile :: bool where
  "useProfile = True"

definition profileFolder :: string where
  "profileFolder = ''whatsapp_profile_go''"

definition numbersFilePath :: string where
  "numbersFilePath = ''numbers.txt''"

definition messageFilePath :: string where
  "messageFilePath = ''text.txt''"

definition logsDir :: string where
  "logsDir = ''logs''"

definition whatsAppURL :: string where
  "whatsAppURL = ''https://web.whatsapp.com/''"

definition seleniumPort :: nat where
  "seleniumPort = 9515"

definition Millisecond :: nat where
  "Millisecond = 1000000"

definition Second :: nat where
  "Second = 1000 * Millisecond"

definition EnterKey :: string where
  \<comment> \<open>\<open>selenium.EnterKey\<close>, the code point U+E007\<close>
  "EnterKey = [CHR 0xEE, CHR 0x80, CHR 0x87]"

definition loginCheckSelector :: string where
  "loginCheckSelector = ''div[role='textbox']''"

definition sendButtonSelectors :: "(locator \<times> string) list" where
  "sendButtonSelectors =
     [(ByXPATH, ''//span[@data-icon='wds-ic-send-filled']''),
      (ByXPATH, ''//button[@aria-label='Send']''),
      (ByXPATH, ''//button[@aria-label='G'' @ [CHR 0xC3, CHR 0x83, CHR 0xC2, CHR 0xB6] @ ''nder']''),
      (ByCSSSelector, ''span[data-testid='send']''),
      (ByCSSSelector, ''button[data-testid='send']'')]"

definition messageBoxSelector :: string where
  "messageBoxSelector = ''div[data-testid='conversation-compose-box-input']''"

subsection \<open>\<open>readLines\<close>, \<open>setupLogFile\<close>, \<open>logMessage\<close>\<close>

definition readLines :: "env \<Rightarrow> string \<Rightarrow> world \<Rightarrow> (string list \<times> err option) \<times> world" where
  "readLines env path w0 =
     (case os_Open env path w0 of
        (Some e, w1) \<Rightarrow> (([], Some e), w1)
      | (None, w1) \<Rightarrow>
          (case scanner_Scan env path w1 of
             ((raw, scanErr), w2) \<Rightarrow> ((map TrimSpace raw, scanErr), file_Close env path w2)))"

definition openLogFile :: "env \<Rightarrow> world \<Rightarrow> (err + string) \<times> world" where
  \<comment> \<open>lines 68 to 77 of \<open>setupLogFile\<close>\<close>
  "openLogFile env w0 =
     (case time_Now_Format env ''2006-01-02_15-04-05'' w0 of
        (timestamp, w1) \<Rightarrow>
          (let logFileName = Sprintf ''%s_log.txt'' [timestamp];
               logFilePath = pathJoin env logsDir logFileName
           in case os_OpenFile env logFilePath [O_APPEND, O_CREATE, O_WRONLY] 420 w1 of
                (Some e, w2) \<Rightarrow>
                  (Inl (Sprintf ''failed to open log file '%s': %w'' [logFilePath, e]), w2)
              | (None, w2) \<Rightarrow>
                  (Inr logFilePath,
                   fmt_Print env (Sprintf ''Logging to: %s\<newline>'' [logFilePath]) w2)))"

definition setupLogFile :: "env \<Rightarrow> world \<Rightarrow> (err + string) \<times> world" where
  "setupLogFile env w0 =
     (case os_Stat env logsDir w0 of
        (statErr, w1) \<Rightarrow>
          if os_IsNotExist env statErr then
            (case os_MkdirAll env logsDir 493 w1 of
               (Some e, w2) \<Rightarrow>
                 (Inl (Sprintf ''failed to create logs directory '%s': %w'' [logsDir, e]), w2)
             | (None, w2) \<Rightarrow>
                 openLogFile env
                   (fmt_Print env (Sprintf ''Logs directory created: %s\<newline>'' [logsDir]) w2))
          else openLogFile env w1)"

definition logMessage :: "env \<Rightarrow> string option \<Rightarrow> string \<Rightarrow> string list \<Rightarrow> world \<Rightarrow> world" where
  "logMessage env logFile format operands w0 =
     (let message = Sprintf format operands;
          w1 = fmt_Print env message w0
      in case logFile of
           None \<Rightarrow> w1
         | Some file \<Rightarrow>
             (case time_Now_Format env ''[2006-01-02 15:04:05] '' w1 of
                (stamp, w2) \<Rightarrow>
                  (case file_WriteString env file (stamp @ message) w2 of
                     (None, w3) \<Rightarrow> w3
                   | (Some e, w3) \<Rightarrow>
                       log_Printf env (Sprintf ''Failed to write to log file: %v'' [e]) w3)))"

subsection \<open>\<open>main\<close>, by the steps its comments number\<close>

text \<open>
  A step that can end the process returns \<open>Inl code\<close> after \<open>os.Exit(code)\<close>, which
  runs no deferred call, and \<open>Inr\<close> with what the next steps use otherwise.
\<close>

definition startService :: "env \<Rightarrow> string \<Rightarrow> world \<Rightarrow> (nat + unit) \<times> world" where
  "startService env logFile w0 =
     (case (if chromeDriverPath \<noteq> [] then
              (case selenium_NewChromeDriverService env chromeDriverPath seleniumPort w0 of
                 (Some e, w1) \<Rightarrow>
                   selenium_NewChromeDriverService env [] seleniumPort
                     (logMessage env (Some logFile)
                        ''Failed to start ChromeDriver service from specified path ('%s'): %v. Trying ChromeDriver from PATH.\<newline>''
                        [chromeDriverPath, e] w1)
               | (None, w1) \<Rightarrow> (None, w1))
            else selenium_NewChromeDriverService env [] seleniumPort w0) of
        (Some e, w2) \<Rightarrow>
          (Inl 1, os_Exit env 1
             (logMessage env (Some logFile)
                ''Error starting ChromeDriver service (tried specified path and PATH): %v\<newline>'' [e] w2))
      | (None, w2) \<Rightarrow> (Inr (), w2))"

definition setupCapabilities :: "env \<Rightarrow> string \<Rightarrow> world \<Rightarrow> (nat + string list) \<times> world" where
  "setupCapabilities env logFile w0 =
     (if useProfile then
        (case filepath_Abs env profileFolder w0 of
           (Inl e, w1) \<Rightarrow>
             (Inl 1, os_Exit env 1
                (logMessage env (Some logFile)
                   ''Could not get absolute path for profile folder ('%s'): %v\<newline>''
                   [profileFolder, e] w1))
         | (Inr absProfileFolder, w1) \<Rightarrow>
             (case os_Stat env absProfileFolder w1 of
                (statErr, w2) \<Rightarrow>
                  if os_IsNotExist env statErr then
                    (case os_MkdirAll env absProfileFolder 493 w2 of
                       (Some mkdirErr, w3) \<Rightarrow>
                         (Inl 1, os_Exit env 1
                            (logMessage env (Some logFile)
                               ''Could not create profile folder ('%s'): %v\<newline>''
                               [absProfileFolder, mkdirErr] w3))
                     | (None, w3) \<Rightarrow>
                         (Inr [Sprintf ''user-data-dir=%s'' [absProfileFolder]], w3))
                  else
                    (case statErr of
                       Some e \<Rightarrow>
                         (Inl 1, os_Exit env 1
                            (logMessage env (Some logFile)
                               ''Error checking profile folder ('%s'): %v\<newline>''
                               [absProfileFolder, e] w2))
                     | None \<Rightarrow>
                         (Inr [Sprintf ''user-data-dir=%s'' [absProfileFolder]], w2))))
      else (Inr [], w0))"

definition connectWebDriver :: "env \<Rightarrow> string \<Rightarrow> string list \<Rightarrow> world \<Rightarrow> (nat + unit) \<times> world" where
  "connectWebDriver env logFile chromeArgs w0 =
     (case selenium_NewRemote env ''chrome'' chromeArgs
             (Sprintf ''http://localhost:%d/wd/hub'' [Itoa seleniumPort]) w0 of
        (Some e, w1) \<Rightarrow>
          (Inl 1, os_Exit env 1
             (logMessage env (Some logFile) ''Error connecting to WebDriver: %v\<newline>'' [e] w1))
      | (None, w1) \<Rightarrow> (Inr (), w1))"

text \<open>
  \<open>WaitWithTimeoutAndInterval\<close> belongs to the WebDriver library: it calls the
  condition, returns nil when the condition holds, returns a timeout error when more
  than the timeout has passed since it started, and sleeps for the interval before
  the next call otherwise. The condition here looks the login element up and logs
  when it is there. The library's error text also gives the elapsed time.
\<close>

definition timeoutError :: err where
  "timeoutError = ''timeout''"

function waitForLogin :: "env \<Rightarrow> string \<Rightarrow> nat \<Rightarrow> world \<Rightarrow> err option \<times> world" where
  "waitForLogin env logFile startTime w =
     (case wd_FindElement env ByCSSSelector loginCheckSelector w of
        (Inr el, w1) \<Rightarrow>
          (None, logMessage env (Some logFile) ''Login check element found.\<newline>'' [] w1)
      | (Inl findErr, w1) \<Rightarrow>
          if 120 * Second < clock w1 - startTime then (Some timeoutError, w1)
          else waitForLogin env logFile startTime (time_Sleep env (1 * Second) w1))"
  by pat_completeness auto
termination
proof (relation "measure (\<lambda>(env, logFile, startTime, w). 121 * Second + startTime - clock w)")
  show "wf (measure (\<lambda>(env, logFile, startTime, w). 121 * Second + startTime - clock w))"
    by simp
next
  fix env :: env and logFile :: string and startTime :: nat and w w1 :: world
    and r :: "err + element" and findErr :: err
  assume a: "(r, w1) = wd_FindElement env ByCSSSelector loginCheckSelector w"
    and b: "\<not> 120 * Second < clock w1 - startTime"
  from a have "clock w \<le> clock w1"
    by (auto simp: wd_FindElement_def perform_def split: option.splits)
  moreover have "clock (time_Sleep env (1 * Second) w1) = clock w1 + Second + reply_elapsed env (calls w1)"
    by (simp add: time_Sleep_def perform_def)
  moreover have "0 < Second" by (simp add: Second_def Millisecond_def)
  ultimately show "((env, logFile, startTime, time_Sleep env (1 * Second) w1), (env, logFile, startTime, w))
      \<in> measure (\<lambda>(env, logFile, startTime, w). 121 * Second + startTime - clock w)"
    using b by simp
qed

declare waitForLogin.simps [simp del]

definition loginWhatsApp :: "env \<Rightarrow> string \<Rightarrow> world \<Rightarrow> (nat + unit) \<times> world" where
  "loginWhatsApp env logFile w0 =
     (case wd_Get env whatsAppURL w0 of
        (Some e, w1) \<Rightarrow>
          (Inl 1, os_Exit env 1
             (logMessage env (Some logFile) ''Error opening WhatsApp Web ('%s'): %v\<newline>''
                [whatsAppURL, e] w1))
      | (None, w1) \<Rightarrow>
          (case waitForLogin env logFile (clock w1) w1 of
             (Some e, w2) \<Rightarrow>
               (Inl 1, os_Exit env 1
                  (logMessage env (Some logFile)
                     ''Login failed or timed out after 120 seconds! Error: %v. Please ensure you are logged into WhatsApp Web and the selector '%s' is correct.\<newline>''
                     [e, loginCheckSelector] w2))
           | (None, w2) \<Rightarrow> (Inr (), time_Sleep env (3 * Second) w2)))"

definition readNumbers :: "env \<Rightarrow> string \<Rightarrow> world \<Rightarrow> (nat + string list) \<times> world" where
  "readNumbers env logFile w0 =
     (case readLines env numbersFilePath w0 of
        ((numbers, Some e), w1) \<Rightarrow>
          (Inl 1, os_Exit env 1
             (logMessage env (Some logFile) ''Error reading numbers from '%s': %v\<newline>''
                [numbersFilePath, e] w1))
      | ((numbers, None), w1) \<Rightarrow>
          if length numbers = 0 then
            (Inl 1, os_Exit env 1
               (logMessage env (Some logFile)
                  ''No numbers found in '%s'. Please add phone numbers to the file.\<newline>''
                  [numbersFilePath] w1))
          else (Inr numbers, w1))"

definition readMessage :: "env \<Rightarrow> string \<Rightarrow> world \<Rightarrow> (nat + string) \<times> world" where
  "readMessage env logFile w0 =
     (case os_ReadFile env messageFilePath w0 of
        (Inl e, w1) \<Rightarrow>
          (Inl 1, os_Exit env 1
             (logMessage env (Some logFile) ''Error reading message from '%s': %v\<newline>''
                [messageFilePath, e] w1))
      | (Inr messageBytes, w1) \<Rightarrow>
          (let rawMessage = TrimSpace messageBytes in
           if rawMessage = [] then
             (Inl 1, os_Exit env 1
                (logMessage env (Some logFile)
                   ''Message in '%s' is empty. Please write a message to send.\<newline>''
                   [messageFilePath] w1))
           else (Inr (QueryEscape rawMessage), w1)))"

subsection \<open>Step 7: the send loop\<close>

text \<open>One pass over the selectors: the body of the outer \<open>for\<close> up to its \<open>break\<close>.\<close>

fun trySelectors :: "env \<Rightarrow> (locator \<times> string) list \<Rightarrow> world \<Rightarrow> element option \<times> world" where
  "trySelectors env [] w = (None, w)"
| "trySelectors env (selector # rest) w =
     (case wd_FindElement env (fst selector) (snd selector) w of
        (Inl findErr, w1) \<Rightarrow> trySelectors env rest w1
      | (Inr el, w1) \<Rightarrow>
          (case element_IsDisplayed env el w1 of
             (displayed, w2) \<Rightarrow>
               (case element_IsEnabled env el w2 of
                  (enabled, w3) \<Rightarrow>
                    if displayed \<and> enabled then (Some el, w3)
                    else trySelectors env rest w3)))"

text \<open>
  The outer \<open>for\<close>: \<open>buttonFound\<close> and \<open>sendButton\<close> together are the optional
  element returned.
\<close>

function pollSendButton :: "env \<Rightarrow> nat \<Rightarrow> world \<Rightarrow> element option \<times> world" where
  "pollSendButton env waitStartTime w =
     (if clock w - waitStartTime < 30 * Second then
        (case trySelectors env sendButtonSelectors w of
           (Some sendButton, w1) \<Rightarrow> (Some sendButton, w1)
         | (None, w1) \<Rightarrow>
             pollSendButton env waitStartTime (time_Sleep env (500 * Millisecond) w1))
      else (None, w))"
  by pat_completeness auto
termination
proof (relation "measure (\<lambda>(env, waitStartTime, w). 30 * Second + waitStartTime - clock w)")
  show "wf (measure (\<lambda>(env, waitStartTime, w). 30 * Second + waitStartTime - clock w))"
    by simp
next
  fix env :: env and waitStartTime :: nat and w w1 :: world and r :: "element option"
  assume a: "clock w - waitStartTime < 30 * Second"
    and b: "(r, w1) = trySelectors env sendButtonSelectors w"
  have mono: "clock v \<le> clock (snd (trySelectors env sels v))" for sels v
  proof (induction sels arbitrary: v)
    case Nil
    show ?case by simp
  next
    case (Cons selector rest)
    obtain f w1 where F: "wd_FindElement env (fst selector) (snd selector) v = (f, w1)"
      by fastforce
    have c1: "clock v \<le> clock w1"
      using F by (auto simp: wd_FindElement_def perform_def split: option.splits)
    show ?case
    proof (cases f)
      case (Inl e)
      with F have "trySelectors env (selector # rest) v = trySelectors env rest w1"
        by simp
      with c1 Cons.IH[of w1] show ?thesis by simp
    next
      case (Inr el)
      define w2 where "w2 = snd (element_IsDisplayed env el w1)"
      define w3 where "w3 = snd (element_IsEnabled env el w2)"
      have c2: "clock w1 \<le> clock w2" and c3: "clock w2 \<le> clock w3"
        by (simp_all add: w2_def w3_def element_IsDisplayed_def element_IsEnabled_def
              query_def perform_def)
      have "snd (trySelectors env (selector # rest) v) = w3
          \<or> snd (trySelectors env (selector # rest) v) = snd (trySelectors env rest w3)"
        using F Inr by (simp add: w2_def w3_def split: prod.splits)
      with c1 c2 c3 Cons.IH[of w3] show ?thesis by auto
    qed
  qed
  from mono[of w sendButtonSelectors] b have "clock w \<le> clock w1"
    by (metis snd_conv)
  moreover have "clock (time_Sleep env (500 * Millisecond) w1)
      = clock w1 + 500 * Millisecond + reply_elapsed env (calls w1)"
    by (simp add: time_Sleep_def perform_def)
  moreover have "0 < Millisecond" by (simp add: Millisecond_def)
  ultimately show "((env, waitStartTime, time_Sleep env (500 * Millisecond) w1), (env, waitStartTime, w))
      \<in> measure (\<lambda>(env, waitStartTime, w). 30 * Second + waitStartTime - clock w)"
    using a by simp
qed

declare pollSendButton.simps [simp del]

text \<open>
  The loop body. The source leaves it by \<open>continue\<close> in seven places or by reaching
  its end; \<open>branch\<close> names the way taken, so that properties can refer to it. The
  source has no such value.
\<close>

datatype branch =
    EmptyLine
  | NavigationFailed
  | EnterWithoutButton
  | SkippedWithoutButton
  | EnterAfterClick
  | SkippedAfterClick
  | Clicked

definition skipUnsent :: "env \<Rightarrow> string \<Rightarrow> string \<Rightarrow> world \<Rightarrow> branch \<times> world" where
  \<comment> \<open>lines 272 to 274\<close>
  "skipUnsent env logFile number w =
     (SkippedWithoutButton,
      time_Sleep env (2 * Second)
        (logMessage env (Some logFile) ''Skipping %s as message could not be sent.\<newline>'' [number] w))"

definition skipPersistent :: "env \<Rightarrow> string \<Rightarrow> string \<Rightarrow> world \<Rightarrow> branch \<times> world" where
  \<comment> \<open>lines 289 to 291\<close>
  "skipPersistent env logFile number w =
     (SkippedAfterClick,
      time_Sleep env (2 * Second)
        (logMessage env (Some logFile) ''Skipping %s due to persistent send error.\<newline>'' [number] w))"

definition sendWithoutButton :: "env \<Rightarrow> string \<Rightarrow> string \<Rightarrow> world \<Rightarrow> branch \<times> world" where
  \<comment> \<open>lines 252 to 275: no button was found\<close>
  "sendWithoutButton env logFile number w0 =
     (case wd_FindElement env ByCSSSelector messageBoxSelector w0 of
        (Inr msgBox, w1) \<Rightarrow>
          (case element_IsDisplayed env msgBox w1 of
             (displayed, w2) \<Rightarrow>
               if displayed then
                 (case element_SendKeys env msgBox EnterKey w2 of
                    (None, w3) \<Rightarrow> (EnterWithoutButton, time_Sleep env (5 * Second) w3)
                  | (Some errEnter, w3) \<Rightarrow> skipUnsent env logFile number w3)
               else skipUnsent env logFile number w2)
      | (Inl findErr, w1) \<Rightarrow> skipUnsent env logFile number w1)"

definition clickSendButton :: "env \<Rightarrow> string \<Rightarrow> string \<Rightarrow> element \<Rightarrow> world \<Rightarrow> branch \<times> world" where
  \<comment> \<open>lines 277 to 295: a button was found\<close>
  "clickSendButton env logFile number sendButton w0 =
     (case element_Click env sendButton w0 of
        (Some errClick, w1) \<Rightarrow>
          (case wd_FindElement env ByCSSSelector messageBoxSelector w1 of
             (Inr msgBox, w2) \<Rightarrow>
               (case element_SendKeys env msgBox EnterKey w2 of
                  (None, w3) \<Rightarrow>
                    (EnterAfterClick,
                     time_Sleep env (5 * Second)
                       (logMessage env (Some logFile)
                          ''SUCCESS (probably): Message sent to %s via Enter key after click failed.\<newline>''
                          [number] w3))
                | (Some errEnter, w3) \<Rightarrow>
                    skipPersistent env logFile number
                      (logMessage env (Some logFile)
                         ''FAILED: Fallback Enter key also failed to send to message box for %s: %v\<newline>''
                         [number, errEnter] w3))
           | (Inl findErr, w2) \<Rightarrow> skipPersistent env logFile number w2)
      | (None, w1) \<Rightarrow>
          (Clicked,
           time_Sleep env (5 * Second)
             (logMessage env (Some logFile) ''SUCCESS: Message sent to: %s\<newline>'' [number] w1)))"

definition processNumber :: "env \<Rightarrow> string \<Rightarrow> string \<Rightarrow> string \<Rightarrow> world \<Rightarrow> branch \<times> world" where
  \<comment> \<open>lines 217 to 295, the body of the loop\<close>
  "processNumber env logFile encodedMessage number w0 =
     (if number = [] then (EmptyLine, w0)
      else
        (let sendURL = Sprintf ''https://web.whatsapp.com/send?phone=%s&text=%s'' [number, encodedMessage]
         in case wd_Get env sendURL w0 of
              (Some e, w1) \<Rightarrow>
                (NavigationFailed,
                 time_Sleep env (2 * Second)
                   (logMessage env (Some logFile) ''FAILED to navigate to send URL for %s: %v\<newline>''
                      [number, e] w1))
            | (None, w1) \<Rightarrow>
                (case pollSendButton env (clock w1) w1 of
                   (None, w2) \<Rightarrow> sendWithoutButton env logFile number w2
                 | (Some sendButton, w2) \<Rightarrow> clickSendButton env logFile number sendButton w2)))"

fun sendMessages :: "env \<Rightarrow> string \<Rightarrow> string \<Rightarrow> string list \<Rightarrow> world \<Rightarrow> branch list \<times> world" where
  "sendMessages env logFile encodedMessage [] w = ([], w)"
| "sendMessages env logFile encodedMessage (number # numbers) w =
     (case processNumber env logFile encodedMessage number w of
        (b, w1) \<Rightarrow>
          (case sendMessages env logFile encodedMessage numbers w1 of
             (bs, w2) \<Rightarrow> (b # bs, w2)))"

definition finish :: "env \<Rightarrow> string \<Rightarrow> world \<Rightarrow> world" where
  \<comment> \<open>lines 298 to 303, then the deferred calls, last registered first\<close>
  "finish env logFile w0 =
     (let w1 = logMessage env (Some logFile) ''\<newline>All message sending attempts completed.\<newline>'' [] w0;
          w2 = logMessage env (Some logFile)
                 ''Please check WhatsApp Web to confirm sent messages and the log file for details.\<newline>'' [] w1;
          w3 = logMessage env (Some logFile) ''Browser window will close in 10 seconds...\<newline>'' [] w2;
          w4 = time_Sleep env (10 * Second) w3;
          w5 = logMessage env (Some logFile) ''Application finished.\<newline>'' [] w4
      in file_Close env logFile (service_Stop env (wd_Quit env w5)))"

datatype outcome = Returned | Exited nat

definition main :: "env \<Rightarrow> world \<Rightarrow> (outcome \<times> branch list) \<times> world" where
  "main env w0 =
     (case setupLogFile env w0 of
        (Inl e, w1) \<Rightarrow>
          ((Exited 1, []), log_Fatalf env (Sprintf ''Error setting up log file: %v'' [e]) w1)
      | (Inr logFile, w1) \<Rightarrow>
     (case startService env logFile
             (logMessage env (Some logFile) ''Application started.\<newline>'' [] w1) of
        (Inl code, w2) \<Rightarrow> ((Exited code, []), w2)
      | (Inr u, w2) \<Rightarrow>
     (case setupCapabilities env logFile w2 of
        (Inl code, w3) \<Rightarrow> ((Exited code, []), w3)
      | (Inr chromeArgs, w3) \<Rightarrow>
     (case connectWebDriver env logFile chromeArgs w3 of
        (Inl code, w4) \<Rightarrow> ((Exited code, []), w4)
      | (Inr u, w4) \<Rightarrow>
     (case loginWhatsApp env logFile w4 of
        (Inl code, w5) \<Rightarrow> ((Exited code, []), w5)
      | (Inr u, w5) \<Rightarrow>
     (case readNumbers env logFile w5 of
        (Inl code, w6) \<Rightarrow> ((Exited code, []), w6)
      | (Inr numbers, w6) \<Rightarrow>
     (case readMessage env logFile w6 of
        (Inl code, w7) \<Rightarrow> ((Exited code, []), w7)
      | (Inr encodedMessage, w7) \<Rightarrow>
     (case sendMessages env logFile encodedMessage numbers w7 of
        (bs, w8) \<Rightarrow> ((Returned, bs), finish env logFile w8)))))))))"

section \<open>Observing a run\<close>

text \<open>A process starts with its argument vector and a clock reading, and has called nothing.\<close>

definition initial :: "string list \<Rightarrow> nat \<Rightarrow> world" where
  "initial a t = \<lparr>argv = a, clock = t, calls = 0, trace = []\<rparr>"

definition call_of :: "event \<Rightarrow> call" where
  "call_of e = (case e of Ev c r \<Rightarrow> c)"

definition reply_of :: "event \<Rightarrow> reply" where
  "reply_of e = (case e of Ev c r \<Rightarrow> r)"

text \<open>The pages the browser was sent to, in order.\<close>

fun navigation :: "call \<Rightarrow> string option" where
  "navigation (Get url) = Some url"
| "navigation c = None"

definition navigations :: "event list \<Rightarrow> string list" where
  "navigations tr = List.map_filter (\<lambda>e. navigation (call_of e)) tr"

text \<open>
  The steps of the program's sequence that a call belongs to. Console and log output,
  the profile folder checks, the visibility queries, the closing of files and the
  pauses of other lengths than the two between numbers belong to none. The pause
  before the next number is kept with its length, and the lookup of the message box
  is a step of its own, before the key that may be sent to it.
\<close>

datatype step =
    StartDriverService
  | OpenBrowserSession
  | Navigate string
  | PollForLogin
  | ReadInput string
  | PollForSendControl
  | ClickSendControl
  | FindMessageBox
  | KeystrokeFallback
  | PauseBeforeNext nat

fun step_of :: "call \<Rightarrow> step option" where
  "step_of (NewChromeDriverService path port) = Some StartDriverService"
| "step_of (NewRemote browser chromeArgs url) = Some OpenBrowserSession"
| "step_of (Get url) = Some (Navigate url)"
| "step_of (FindElement b sel) =
     (if (b, sel) = (ByCSSSelector, loginCheckSelector) then Some PollForLogin
      else if (b, sel) \<in> set sendButtonSelectors then Some PollForSendControl
      else if (b, sel) = (ByCSSSelector, messageBoxSelector) then Some FindMessageBox
      else None)"
| "step_of (Open path) = Some (ReadInput path)"
| "step_of (Scan path) = Some (ReadInput path)"
| "step_of (ReadFile path) = Some (ReadInput path)"
| "step_of (Click el) = Some ClickSendControl"
| "step_of (SendKeys el keys) = Some KeystrokeFallback"
| "step_of (Sleep d) = (if d = 2 * Second \<or> d = 5 * Second then Some (PauseBeforeNext d) else None)"
| "step_of c = None"

definition raw_steps :: "event list \<Rightarrow> step list" where
  "raw_steps tr = List.map_filter (\<lambda>e. step_of (call_of e)) tr"

definition steps :: "event list \<Rightarrow> step list" where
  \<comment> \<open>repeated calls of one step count once\<close>
  "steps tr = remdups_adj (raw_steps tr)"

definition add_step :: "step \<Rightarrow> step list \<Rightarrow> step list" where
  \<comment> \<open>what one more call of step \<open>s\<close> makes of the steps seen so far\<close>
  "add_step s st = (if st \<noteq> [] \<and> last st = s then st else st @ [s])"

text \<open>The address the loop body navigates to for a number.\<close>

definition sendURL :: "string \<Rightarrow> string \<Rightarrow> string" where
  "sendURL enc number = Sprintf ''https://web.whatsapp.com/send?phone=%s&text=%s'' [number, enc]"

text \<open>
  The steps of one pass through the loop body, by the way it is left. A pass that
  skips the number after the message box was looked up has sent the key, in vain, or
  has not: the box was missing or hidden.
\<close>

definition iteration_shape :: "string \<Rightarrow> branch \<Rightarrow> step list \<Rightarrow> bool" where
  "iteration_shape url b st =
     (case b of
        EmptyLine \<Rightarrow> st = []
      | NavigationFailed \<Rightarrow> st = [Navigate url, PauseBeforeNext (2 * Second)]
      | Clicked \<Rightarrow>
          st = [Navigate url, PollForSendControl, ClickSendControl, PauseBeforeNext (5 * Second)]
      | EnterWithoutButton \<Rightarrow>
          st = [Navigate url, PollForSendControl, FindMessageBox, KeystrokeFallback,
                PauseBeforeNext (5 * Second)]
      | SkippedWithoutButton \<Rightarrow>
          st = [Navigate url, PollForSendControl, FindMessageBox, PauseBeforeNext (2 * Second)]
          \<or> st = [Navigate url, PollForSendControl, FindMessageBox, KeystrokeFallback,
                   PauseBeforeNext (2 * Second)]
      | EnterAfterClick \<Rightarrow>
          st = [Navigate url, PollForSendControl, ClickSendControl, FindMessageBox,
                KeystrokeFallback, PauseBeforeNext (5 * Second)]
      | SkippedAfterClick \<Rightarrow>
          st = [Navigate url, PollForSendControl, ClickSendControl, FindMessageBox,
                PauseBeforeNext (2 * Second)]
          \<or> st = [Navigate url, PollForSendControl, ClickSendControl, FindMessageBox,
                   KeystrokeFallback, PauseBeforeNext (2 * Second)])"

text \<open>
  A trace is smooth when no call in it failed and no question about an element was
  answered with no.
\<close>

definition smooth :: "event list \<Rightarrow> bool" where
  "smooth tr = list_all (\<lambda>e. case reply_of e of Failed x \<Rightarrow> False | Flag f \<Rightarrow> f | _ \<Rightarrow> True) tr"

text \<open>
  The kind of a call is the collaborator function called, whatever its arguments. A
  part of the program is described by the kinds of call it can make: \<open>extends K w w'\<close>
  says that \<open>w'\<close> continues the run of \<open>w\<close> with calls of the kinds in \<open>K\<close> only.
\<close>

datatype kind =
    KStat | KMkdirAll | KStdout | KStderr | KNowFormat | KOpenFile | KWriteString
  | KFileClose | KNewChromeDriverService | KServiceStop | KAbs | KNewRemote | KQuit
  | KGet | KFindElement | KIsDisplayed | KIsEnabled | KClick | KSendKeys | KSleep
  | KOpen | KScan | KReadFile | KExit

fun kind_of :: "call \<Rightarrow> kind" where
  "kind_of (Stat path) = KStat"
| "kind_of (MkdirAll path perm) = KMkdirAll"
| "kind_of (Stdout s) = KStdout"
| "kind_of (Stderr s) = KStderr"
| "kind_of (NowFormat layout) = KNowFormat"
| "kind_of (OpenFile path flags perm) = KOpenFile"
| "kind_of (WriteString file s) = KWriteString"
| "kind_of (FileClose file) = KFileClose"
| "kind_of (NewChromeDriverService path port) = KNewChromeDriverService"
| "kind_of ServiceStop = KServiceStop"
| "kind_of (Abs path) = KAbs"
| "kind_of (NewRemote browser chromeArgs url) = KNewRemote"
| "kind_of Quit = KQuit"
| "kind_of (Get url) = KGet"
| "kind_of (FindElement b sel) = KFindElement"
| "kind_of (IsDisplayed el) = KIsDisplayed"
| "kind_of (IsEnabled el) = KIsEnabled"
| "kind_of (Click el) = KClick"
| "kind_of (SendKeys el keys) = KSendKeys"
| "kind_of (Sleep d) = KSleep"
| "kind_of (Open path) = KOpen"
| "kind_of (Scan path) = KScan"
| "kind_of (ReadFile path) = KReadFile"
| "kind_of (Exit code) = KExit"

definition within :: "kind set \<Rightarrow> event list \<Rightarrow> bool" where
  "within K es = list_all (\<lambda>e. kind_of (call_of e) \<in> K) es"

definition extends :: "kind set \<Rightarrow> world \<Rightarrow> world \<Rightarrow> bool" where
  "extends K w w' \<longleftrightarrow>
     length (trace w) \<le> length (trace w') \<and>
     take (length (trace w)) (trace w') = trace w \<and>
     within K (drop (length (trace w)) (trace w'))"

definition logging :: "kind set" where
  "logging = {KStdout, KNowFormat, KWriteString, KStderr}"

definition polling :: "kind set" where
  "polling = {KFindElement, KIsDisplayed, KIsEnabled, KSleep}"

definition sending :: "kind set" where
  "sending = {KGet, KClick, KSendKeys} \<union> polling \<union> logging"

definition startup_steps :: "step list" where
  "startup_steps =
     [StartDriverService, OpenBrowserSession, Navigate whatsAppURL, PollForLogin,
      ReadInput numbersFilePath, ReadInput messageFilePath]"

text \<open>
  An environment in which every call succeeds at once: every element looked for is
  there, displayed and enabled, the numbers file is \<open>lines\<close> and the message file
  is \<open>message\<close>. Variations of it are the concrete runs below.
\<close>

definition obliging :: "string \<Rightarrow> string \<Rightarrow> env" where
  "obliging lines message =
     \<lparr>reply_elapsed = (\<lambda>k. 0),
      reply_error = (\<lambda>k c. None),
      reply_element = (\<lambda>k c. 7),
      reply_flag = (\<lambda>k c. True),
      reply_text = (\<lambda>k c. case c of Scan p \<Rightarrow> lines | ReadFile p \<Rightarrow> message
                         | NowFormat l \<Rightarrow> ''T'' | Abs p \<Rightarrow> ''/'' @ p | _ \<Rightarrow> []),
      isNotExist = (\<lambda>e. False),
      pathJoin = (\<lambda>d f. d @ ''/'' @ f)\<rparr>"

text \<open>The calls of the kinds in \<open>K\<close> that a trace holds, with their replies, in order.\<close>

definition only :: "kind set \<Rightarrow> event list \<Rightarrow> event list" where
  "only K tr = filter (\<lambda>e. kind_of (call_of e) \<in> K) tr"

definition numbers_of :: "string \<Rightarrow> string list" where
  \<comment> \<open>the numbers the program takes from the bytes of the numbers file\<close>
  "numbers_of bytes = map TrimSpace (fst (ScanLines [] bytes))"

text \<open>What the run printed on the console, in order.\<close>

fun printed :: "call \<Rightarrow> string option" where
  "printed (Stdout s) = Some s"
| "printed c = None"

definition console :: "event list \<Rightarrow> string list" where
  "console tr = List.map_filter (\<lambda>e. printed (call_of e)) tr"

definition starting :: "kind set" where
  \<comment> \<open>the kinds of call made before the input files are read\<close>
  "starting =
     {KStat, KMkdirAll, KNowFormat, KOpenFile, KStdout, KStderr, KWriteString, KExit,
      KNewChromeDriverService, KAbs, KNewRemote, KGet, KFindElement, KSleep}"

text \<open>
  A trace is well logged to a file when every write to a file in it is a write to
  that file of a time stamp followed by a message, made right after the message was
  printed on the console and the time stamp was taken. \<open>entry_ok\<close> checks one call
  against the calls before it, latest first.
\<close>

fun written :: "call \<Rightarrow> (string \<times> string) option" where
  "written (WriteString file s) = Some (file, s)"
| "written c = None"

definition stamp_of :: "event \<Rightarrow> string option" where
  "stamp_of e =
     (if call_of e = NowFormat ''[2006-01-02 15:04:05] '' then
        (case reply_of e of Text stamp \<Rightarrow> Some stamp | _ \<Rightarrow> None)
      else None)"

definition entry_ok :: "string \<Rightarrow> event \<Rightarrow> event list \<Rightarrow> bool" where
  "entry_ok logFile e before =
     (case written (call_of e) of
        None \<Rightarrow> True
      | Some (file, s) \<Rightarrow>
          file = logFile \<and>
          (case before of
             e1 # e2 # earlier \<Rightarrow>
               (case stamp_of e1 of
                  None \<Rightarrow> False
                | Some stamp \<Rightarrow>
                    (case printed (call_of e2) of
                       None \<Rightarrow> False
                     | Some message \<Rightarrow> s = stamp @ message))
           | _ \<Rightarrow> False))"

fun logged_after :: "string \<Rightarrow> event list \<Rightarrow> event list \<Rightarrow> bool" where
  "logged_after logFile before [] = True"
| "logged_after logFile before (e # es) =
     (entry_ok logFile e before \<and> logged_after logFile (e # before) es)"

definition well_logged :: "string \<Rightarrow> event list \<Rightarrow> bool" where
  "well_logged logFile tr = logged_after logFile [] tr"


text \<open>
  What one pass over the selectors leaves in the trace. A probe is what the lookup by
  one selector found: nothing, or an element with the answers to the two questions
  asked about it. A pass is accepted by a probe whose element is displayed and
  enabled.
\<close>

datatype probe = Absent err | Present element bool bool

fun probe_events :: "locator \<times> string \<Rightarrow> probe \<Rightarrow> event list" where
  "probe_events selector (Absent e) = [Ev (FindElement (fst selector) (snd selector)) (Failed e)]"
| "probe_events selector (Present el displayed enabled) =
     [Ev (FindElement (fst selector) (snd selector)) (Element el),
      Ev (IsDisplayed el) (Flag displayed),
      Ev (IsEnabled el) (Flag enabled)]"

fun accepted :: "probe \<Rightarrow> bool" where
  "accepted (Absent e) = False"
| "accepted (Present el displayed enabled) = (displayed \<and> enabled)"

definition pass_events :: "(locator \<times> string) list \<Rightarrow> probe list \<Rightarrow> event list" where
  \<comment> \<open>the probes are those of the first selectors of the list, in order\<close>
  "pass_events sels ps = concat (map2 probe_events sels ps)"

definition failed_pass :: "(locator \<times> string) list \<Rightarrow> probe list \<Rightarrow> bool" where
  \<comment> \<open>every selector was tried and none was accepted\<close>
  "failed_pass sels ps \<longleftrightarrow> length ps = length sels \<and> list_all (\<lambda>p. \<not> accepted p) ps"

definition found_pass :: "(locator \<times> string) list \<Rightarrow> probe list \<Rightarrow> element \<Rightarrow> bool" where
  \<comment> \<open>the pass stopped at its first accepted probe, which found \<open>el\<close>\<close>
  "found_pass sels ps el \<longleftrightarrow>
     ps \<noteq> [] \<and> length ps \<le> length sels \<and> last ps = Present el True True \<and>
     list_all (\<lambda>p. \<not> accepted p) (butlast ps)"

text \<open>
  An environment in which every call takes ten seconds, the login element is there and
  no other element is ever found.
\<close>

definition no_send_control :: env where
  "no_send_control =
     (obliging ''905\<newline>'' ''Hi'')
       \<lparr>reply_elapsed := (\<lambda>k. 10 * Second),
        reply_error := (\<lambda>k c. case c of
                            FindElement b sel \<Rightarrow>
                              if sel = loginCheckSelector then None else Some ''no such element''
                          | _ \<Rightarrow> None)\<rparr>"

text \<open>
  What the search for the send control leaves in the trace: passes in which no probe
  was accepted, each followed by the pause, then the probes of the pass that found the
  control, if one did.
\<close>

definition poll_events :: "probe list list \<Rightarrow> probe list \<Rightarrow> event list" where
  "poll_events fails final =
     concat (map (\<lambda>ps. pass_events sendButtonSelectors ps @ [Ev (Sleep (500 * Millisecond)) Done]) fails)
       @ pass_events sendButtonSelectors final"

text \<open>
  What the attempt without a send control leaves in the trace, of the calls on the page:
  the lookup of the message box, whether it is displayed, and the Enter key.
\<close>

definition page_calls :: "event list \<Rightarrow> event list" where
  "page_calls = only {KFindElement, KIsDisplayed, KIsEnabled, KSendKeys, KClick}"


text \<open>
  Three more environments for concrete runs. In the first every call succeeds at once,
  the numbers file has four lines, of which the second is empty and the third has
  blanks around the number, and the message has bytes that the query escape rewrites.
  In the second every click fails. In the third every call takes ten seconds and none
  of the send controls is ever found, while the login element and the message box are.
\<close>

definition several_numbers :: env where
  "several_numbers =
     obliging (''905\<newline>\<newline> 441 \<newline>777\<newline>'')
       ('' 50% off & caf'' @ [CHR 0xC3, CHR 0xA9] @ ''!\<newline>'')"



text \<open>
  The calls of one log line: what \<open>logMessage\<close> with a log file adds to the trace.
\<close>

definition log_events :: "env \<Rightarrow> string \<Rightarrow> string \<Rightarrow> string list \<Rightarrow> world \<Rightarrow> event list" where
  "log_events env logFile format operands w =
     drop (length (trace w)) (trace (logMessage env (Some logFile) format operands w))"

text \<open>
  A stretch of a run consists of log lines to a file when every message printed on the
  console in it is followed at once by the taking of a time stamp and by the write of
  the stamp and the message to that file, and no other write to a file is in it.
  \<open>logs_to logFile w w'\<close> says that \<open>w'\<close> continues the run of \<open>w\<close> with such a
  stretch.
\<close>

fun log_lines :: "string \<Rightarrow> event list \<Rightarrow> bool" where
  "log_lines logFile [] = True"
| "log_lines logFile (e # es) =
     (case printed (call_of e) of
        Some message \<Rightarrow>
          (case es of
             e1 # e2 # rest \<Rightarrow>
               (case stamp_of e1 of
                  Some stamp \<Rightarrow>
                    call_of e2 = WriteString logFile (stamp @ message) \<and> log_lines logFile rest
                | None \<Rightarrow> False)
           | _ \<Rightarrow> False)
      | None \<Rightarrow> written (call_of e) = None \<and> log_lines logFile es)"

definition logs_to :: "string \<Rightarrow> world \<Rightarrow> world \<Rightarrow> bool" where
  "logs_to logFile w w' \<longleftrightarrow>
     length (trace w) \<le> length (trace w') \<and>
     take (length (trace w)) (trace w') = trace w \<and>
     log_lines logFile (drop (length (trace w)) (trace w'))"


text \<open>
  How failures are dealt with. A call failed when its reply is an error, alone or with
  the bytes read before it. A trace is \<open>logged_before c\<close> when it ends with the call
  \<open>c\<close> and what comes just before is part of a log line or of a message to the
  standard logger.
\<close>

definition failed :: "event \<Rightarrow> bool" where
  "failed e = (case reply_of e of Failed x \<Rightarrow> True | Truncated bytes x \<Rightarrow> True | _ \<Rightarrow> False)"











text \<open>
  The kinds of call before the loop whose failure the program does not survive:
  creating a folder, opening the log file, making the profile path absolute, opening
  the browser session and reading the input files.
\<close>

definition fatal :: "kind set" where
  "fatal = {KMkdirAll, KOpenFile, KAbs, KNewRemote, KOpen, KScan, KReadFile}"

text \<open>
  A run that has carried on has made no exit call and has seen no call of these kinds
  fail. A run that has given up ends with its one exit call, of status 1, made right
  after a call that prints or logs, and has seen at most one call of these kinds fail.
\<close>

definition carried_on :: "event list \<Rightarrow> bool" where
  "carried_on tr \<longleftrightarrow> only {KExit} tr = [] \<and> filter failed (only fatal tr) = []"


section \<open>Facts about the collaborator calls\<close>

lemma map_filter_append: "List.map_filter f (xs @ ys) = List.map_filter f xs @ List.map_filter f ys"
  by (simp add: List.map_filter_def)

lemma raw_steps_simps [simp]:
  "raw_steps [] = []"
  "raw_steps (Ev c r # tr) = (case step_of c of None \<Rightarrow> raw_steps tr | Some s \<Rightarrow> s # raw_steps tr)"
  "raw_steps (xs @ ys) = raw_steps xs @ raw_steps ys"
  by (simp_all add: raw_steps_def List.map_filter_def call_of_def split: option.splits)

lemma perform_fields [simp]:
  "trace (perform env c r w) = trace w @ [Ev c r]"
  "calls (perform env c r w) = Suc (calls w)"
  "clock (perform env c r w) = clock w + reply_elapsed env (calls w)"
  "argv (perform env c r w) = argv w"
  by (simp_all add: perform_def)

lemma time_Sleep_fields [simp]:
  "trace (time_Sleep env d w) = trace w @ [Ev (Sleep d) Done]"
  "calls (time_Sleep env d w) = Suc (calls w)"
  "clock (time_Sleep env d w) = clock w + d + reply_elapsed env (calls w)"
  "argv (time_Sleep env d w) = argv w"
  by (simp_all add: time_Sleep_def perform_def)

lemma attempt_eq:
  "attempt env c w = (r, w1) \<longleftrightarrow>
     r = reply_error env (calls w) c \<and>
     w1 = perform env c (case reply_error env (calls w) c of None \<Rightarrow> Done | Some e \<Rightarrow> Failed e) w"
  by (auto simp: attempt_def split: option.splits)

lemma emit_eq:
  "emit env c w = perform env c (case reply_error env (calls w) c of None \<Rightarrow> Done | Some e \<Rightarrow> Failed e) w"
  by (simp add: emit_def attempt_def split: option.splits)

lemma fetch_eq:
  "fetch env c w = (r, w1) \<longleftrightarrow>
     r = (case reply_error env (calls w) c of None \<Rightarrow> Inr (reply_text env (calls w) c) | Some e \<Rightarrow> Inl e) \<and>
     w1 = perform env c (case reply_error env (calls w) c of
                           None \<Rightarrow> Text (reply_text env (calls w) c) | Some e \<Rightarrow> Failed e) w"
  by (auto simp: fetch_def split: option.splits)

lemma query_eq:
  "query env c w = (r, w1) \<longleftrightarrow>
     r = reply_flag env (calls w) c \<and> w1 = perform env c (Flag (reply_flag env (calls w) c)) w"
  by (auto simp: query_def)

lemma wd_FindElement_eq:
  "wd_FindElement env b sel w = (r, w1) \<longleftrightarrow>
     r = (case reply_error env (calls w) (FindElement b sel) of
            None \<Rightarrow> Inr (reply_element env (calls w) (FindElement b sel)) | Some e \<Rightarrow> Inl e) \<and>
     w1 = perform env (FindElement b sel)
            (case reply_error env (calls w) (FindElement b sel) of
               None \<Rightarrow> Element (reply_element env (calls w) (FindElement b sel))
             | Some e \<Rightarrow> Failed e) w"
  by (auto simp: wd_FindElement_def split: option.splits)

lemma time_Now_Format_eq:
  "time_Now_Format env layout w = (r, w1) \<longleftrightarrow>
     r = reply_text env (calls w) (NowFormat layout) \<and>
     w1 = perform env (NowFormat layout) (Text (reply_text env (calls w) (NowFormat layout))) w"
  by (auto simp: time_Now_Format_def)

lemma scanner_Scan_eq:
  "scanner_Scan env file w = (r, w1) \<longleftrightarrow>
     r = (case ScanLines [] (reply_text env (calls w) (Scan file)) of
            (ls, Some e) \<Rightarrow> (ls, Some e)
          | (ls, None) \<Rightarrow> (ls, reply_error env (calls w) (Scan file))) \<and>
     w1 = perform env (Scan file)
            (case reply_error env (calls w) (Scan file) of
               None \<Rightarrow> Text (reply_text env (calls w) (Scan file))
             | Some e \<Rightarrow> Truncated (reply_text env (calls w) (Scan file)) e) w"
  by (auto simp: scanner_Scan_def Let_def split: option.splits prod.splits)

lemmas prim_defs =
  os_Stat_def os_MkdirAll_def fmt_Print_def log_Printf_def os_Exit_def log_Fatalf_def
  os_OpenFile_def file_WriteString_def file_Close_def os_Open_def os_ReadFile_def
  filepath_Abs_def selenium_NewChromeDriverService_def service_Stop_def selenium_NewRemote_def
  wd_Quit_def wd_Get_def element_IsDisplayed_def element_IsEnabled_def element_Click_def
  element_SendKeys_def

lemmas prim_eqs =
  attempt_eq emit_eq fetch_eq query_eq wd_FindElement_eq time_Now_Format_eq scanner_Scan_eq

lemma chromeDriverPath_nonempty: "chromeDriverPath \<noteq> []"
  by (simp add: chromeDriverPath_def)

lemma Second_pos: "0 < Second"
  by (simp add: Second_def Millisecond_def)

subsection \<open>Steps of a growing trace\<close>

lemma add_step_idem [simp]: "add_step s (add_step s st) = add_step s st"
  by (simp add: add_step_def)

lemma add_step_last [simp]: "last (add_step s st) = s" and add_step_nonempty [simp]: "add_step s st \<noteq> []"
  by (simp_all add: add_step_def)

lemma add_step_single [simp]: "add_step s [a] = (if a = s then [a] else [a, s])"
  by (simp add: add_step_def)

lemma add_step_Cons [simp]: "add_step s (x # y # zs) = x # add_step s (y # zs)"
  by (simp add: add_step_def)

lemma add_step_append [simp]: "ys \<noteq> [] \<Longrightarrow> add_step s (xs @ ys) = xs @ add_step s ys"
  by (simp add: add_step_def)

lemma add_step_Nil [simp]: "add_step s [] = [s]"
  by (simp add: add_step_def)

lemma steps_Nil [simp]: "steps [] = []"
  by (simp add: steps_def)

lemma steps_snoc:
  "steps (tr @ [Ev c r]) = (case step_of c of None \<Rightarrow> steps tr | Some s \<Rightarrow> add_step s (steps tr))"
proof (cases "step_of c")
  case None
  then show ?thesis by (simp add: steps_def)
next
  case (Some s)
  have "remdups_adj (xs @ [s]) = add_step s (remdups_adj xs)" for xs :: "step list"
  proof (cases "xs = []")
    case True
    then show ?thesis by simp
  next
    case False
    then have "remdups_adj (xs @ [s]) = remdups_adj xs @ remdups_adj (dropWhile (\<lambda>y. y = last xs) [s])"
      by (rule remdups_adj_append'')
    moreover have "last (remdups_adj xs) = last xs" "remdups_adj xs \<noteq> []"
      using False by (simp_all add: last_remdups_adj)
    ultimately show ?thesis by (auto simp: add_step_def)
  qed
  with Some show ?thesis by (simp add: steps_def)
qed

lemma steps_append [simp]: "steps (tr @ es) = fold add_step (raw_steps es) (steps tr)"
proof (induction es rule: rev_induct)
  case Nil
  show ?case by simp
next
  case (snoc e es)
  obtain c r where e: "e = Ev c r" by (cases e)
  have "steps ((tr @ es) @ [Ev c r]) = (case step_of c of None \<Rightarrow> steps (tr @ es) | Some s \<Rightarrow> add_step s (steps (tr @ es)))"
    by (rule steps_snoc)
  with snoc e show ?case by (simp split: option.splits)
qed

lemma navigations_simps [simp]:
  "navigations [] = []"
  "navigations (Ev c r # tr) = (case navigation c of None \<Rightarrow> navigations tr | Some u \<Rightarrow> u # navigations tr)"
  "navigations (xs @ ys) = navigations xs @ navigations ys"
  by (simp_all add: navigations_def List.map_filter_def call_of_def split: option.splits)

lemma attempt_fst_snd:
  "fst (attempt env c w) = reply_error env (calls w) c"
  "snd (attempt env c w) =
     perform env c (case reply_error env (calls w) c of None \<Rightarrow> Done | Some e \<Rightarrow> Failed e) w"
  by (simp_all add: attempt_def split: option.splits)

lemma fetch_fst_snd:
  "fst (fetch env c w) =
     (case reply_error env (calls w) c of None \<Rightarrow> Inr (reply_text env (calls w) c) | Some e \<Rightarrow> Inl e)"
  "snd (fetch env c w) =
     perform env c (case reply_error env (calls w) c of
                      None \<Rightarrow> Text (reply_text env (calls w) c) | Some e \<Rightarrow> Failed e) w"
  by (simp_all add: fetch_def split: option.splits)

lemma query_fst_snd:
  "fst (query env c w) = reply_flag env (calls w) c"
  "snd (query env c w) = perform env c (Flag (reply_flag env (calls w) c)) w"
  by (simp_all add: query_def)

lemma wd_FindElement_fst_snd:
  "fst (wd_FindElement env b sel w) =
     (case reply_error env (calls w) (FindElement b sel) of
        None \<Rightarrow> Inr (reply_element env (calls w) (FindElement b sel)) | Some e \<Rightarrow> Inl e)"
  "snd (wd_FindElement env b sel w) =
     perform env (FindElement b sel)
       (case reply_error env (calls w) (FindElement b sel) of
          None \<Rightarrow> Element (reply_element env (calls w) (FindElement b sel))
        | Some e \<Rightarrow> Failed e) w"
  by (simp_all add: wd_FindElement_def split: option.splits)

lemma time_Now_Format_fst_snd:
  "fst (time_Now_Format env layout w) = reply_text env (calls w) (NowFormat layout)"
  "snd (time_Now_Format env layout w) =
     perform env (NowFormat layout) (Text (reply_text env (calls w) (NowFormat layout))) w"
  by (simp_all add: time_Now_Format_def)

lemma scanner_Scan_fst_snd:
  "fst (scanner_Scan env file w) =
     (case ScanLines [] (reply_text env (calls w) (Scan file)) of
        (ls, Some e) \<Rightarrow> (ls, Some e)
      | (ls, None) \<Rightarrow> (ls, reply_error env (calls w) (Scan file)))"
  "snd (scanner_Scan env file w) =
     perform env (Scan file)
       (case reply_error env (calls w) (Scan file) of
          None \<Rightarrow> Text (reply_text env (calls w) (Scan file))
        | Some e \<Rightarrow> Truncated (reply_text env (calls w) (Scan file)) e) w"
  by (simp_all add: scanner_Scan_def Let_def split: option.splits prod.splits)

lemmas prim_fst_snd =
  attempt_fst_snd emit_eq fetch_fst_snd query_fst_snd wd_FindElement_fst_snd
  time_Now_Format_fst_snd scanner_Scan_fst_snd

lemmas phase_simps = Let_def split_beta prim_defs prim_fst_snd

lemmas phase_splits = option.split sum.split if_split

subsection \<open>The kinds of call each part of the program makes\<close>

lemma extends_iff:
  "extends K w w' \<longleftrightarrow> (\<exists>es. trace w' = trace w @ es \<and> within K es)"
proof
  assume "extends K w w'"
  then have "trace w' = trace w @ drop (length (trace w)) (trace w')"
    and "within K (drop (length (trace w)) (trace w'))"
    by (simp_all add: extends_def) (metis append_take_drop_id)
  then show "\<exists>es. trace w' = trace w @ es \<and> within K es" by blast
next
  assume "\<exists>es. trace w' = trace w @ es \<and> within K es"
  then show "extends K w w'" by (auto simp: extends_def)
qed

lemma within_simps [simp]:
  "within K []"
  "within K (Ev c r # es) \<longleftrightarrow> kind_of c \<in> K \<and> within K es"
  "within K (xs @ ys) \<longleftrightarrow> within K xs \<and> within K ys"
  by (simp_all add: within_def call_of_def)

lemma within_mono: "within K es \<Longrightarrow> K \<subseteq> K' \<Longrightarrow> within K' es"
  by (auto simp: within_def list_all_iff)

lemma extends_refl [simp, intro!]: "extends K w w"
  by (simp add: extends_iff)

lemma extends_trans: "extends K w v \<Longrightarrow> extends K v u \<Longrightarrow> extends K w u"
  by (auto simp: extends_iff)

lemma extends_mono: "extends K w v \<Longrightarrow> K \<subseteq> K' \<Longrightarrow> extends K' w v"
  by (auto simp: extends_iff intro: within_mono)

lemma extends_perform [intro!]:
  "extends K w v \<Longrightarrow> kind_of c \<in> K \<Longrightarrow> extends K w (perform env c r v)"
  by (auto simp: extends_iff)

lemma extends_time_Sleep [intro!]:
  "extends K w v \<Longrightarrow> KSleep \<in> K \<Longrightarrow> extends K w (time_Sleep env d v)"
  by (auto simp: extends_iff)

lemma extends_logMessage [intro!]:
  "extends K w v \<Longrightarrow> logging \<subseteq> K \<Longrightarrow> extends K w (logMessage env lf fmt ops v)"
  by (auto simp: logMessage_def logging_def phase_simps split: option.split)

lemma extends_log_Fatalf [intro!]:
  "extends K w v \<Longrightarrow> {KStderr, KExit} \<subseteq> K \<Longrightarrow> extends K w (log_Fatalf env m v)"
  by (auto simp: phase_simps)

lemma extends_openLogFile [intro!]:
  "extends K w v \<Longrightarrow> {KNowFormat, KOpenFile, KStdout} \<subseteq> K \<Longrightarrow>
     extends K w (snd (openLogFile env v))"
  by (auto simp: openLogFile_def phase_simps split: phase_splits)

lemma extends_setupLogFile [intro!]:
  "extends K w v \<Longrightarrow> {KStat, KMkdirAll, KNowFormat, KOpenFile, KStdout} \<subseteq> K \<Longrightarrow>
     extends K w (snd (setupLogFile env v))"
  by (auto simp: setupLogFile_def phase_simps split: phase_splits)

lemma extends_startService [intro!]:
  "extends K w v \<Longrightarrow> insert KNewChromeDriverService (insert KExit logging) \<subseteq> K \<Longrightarrow>
     extends K w (snd (startService env lf v))"
  by (auto simp: startService_def chromeDriverPath_nonempty phase_simps split: phase_splits)

lemma extends_setupCapabilities [intro!]:
  "extends K w v \<Longrightarrow> {KAbs, KStat, KMkdirAll, KExit} \<union> logging \<subseteq> K \<Longrightarrow>
     extends K w (snd (setupCapabilities env lf v))"
  by (auto simp: setupCapabilities_def phase_simps split: phase_splits)

lemma extends_connectWebDriver [intro!]:
  "extends K w v \<Longrightarrow> {KNewRemote, KExit} \<union> logging \<subseteq> K \<Longrightarrow>
     extends K w (snd (connectWebDriver env lf chromeArgs v))"
  by (auto simp: connectWebDriver_def phase_simps split: phase_splits)

lemma extends_waitForLogin [intro!]:
  "extends K w v \<Longrightarrow> {KFindElement, KSleep} \<union> logging \<subseteq> K \<Longrightarrow>
     extends K w (snd (waitForLogin env lf start v))"
proof (induction env lf start v rule: waitForLogin.induct)
  case (1 env logFile startTime v)
  define f where "f = fst (wd_FindElement env ByCSSSelector loginCheckSelector v)"
  define w1 where "w1 = snd (wd_FindElement env ByCSSSelector loginCheckSelector v)"
  have F: "wd_FindElement env ByCSSSelector loginCheckSelector v = (f, w1)"
    by (simp add: f_def w1_def)
  have e1: "extends K w w1"
    using "1.prems" by (auto simp: w1_def phase_simps)
  show ?case
  proof (cases f)
    case (Inr el)
    with F e1 "1.prems" show ?thesis
      by (subst waitForLogin.simps) auto
  next
    case (Inl e)
    show ?thesis
    proof (cases "120 * Second < clock w1 - startTime")
      case True
      with F Inl e1 show ?thesis
        by (subst waitForLogin.simps) simp
    next
      case False
      have "extends K w (time_Sleep env (1 * Second) w1)"
        using e1 "1.prems" by auto
      then have "extends K w (snd (waitForLogin env logFile startTime (time_Sleep env (1 * Second) w1)))"
        using "1.IH"[OF F[symmetric] Inl False] "1.prems" by simp
      with F Inl False show ?thesis
        by (subst waitForLogin.simps) simp
    qed
  qed
qed

lemma extends_loginWhatsApp [intro!]:
  "extends K w v \<Longrightarrow> {KGet, KFindElement, KSleep, KExit} \<union> logging \<subseteq> K \<Longrightarrow>
     extends K w (snd (loginWhatsApp env lf v))"
  by (auto simp: loginWhatsApp_def phase_simps split: phase_splits)

lemma extends_readLines [intro!]:
  "extends K w v \<Longrightarrow> {KOpen, KScan, KFileClose} \<subseteq> K \<Longrightarrow>
     extends K w (snd (readLines env path v))"
  by (auto simp: readLines_def phase_simps split: phase_splits)

lemma extends_readNumbers [intro!]:
  "extends K w v \<Longrightarrow> {KOpen, KScan, KFileClose, KExit} \<union> logging \<subseteq> K \<Longrightarrow>
     extends K w (snd (readNumbers env lf v))"
  by (auto simp: readNumbers_def os_Exit_def Let_def split_beta split: phase_splits)

lemma extends_readMessage [intro!]:
  "extends K w v \<Longrightarrow> {KReadFile, KExit} \<union> logging \<subseteq> K \<Longrightarrow>
     extends K w (snd (readMessage env lf v))"
  by (auto simp: readMessage_def phase_simps split: phase_splits)

lemma extends_trySelectors [intro!]:
  "extends K w v \<Longrightarrow> {KFindElement, KIsDisplayed, KIsEnabled} \<subseteq> K \<Longrightarrow>
     extends K w (snd (trySelectors env sels v))"
proof (induction sels arbitrary: v)
  case Nil
  then show ?case by simp
next
  case (Cons selector rest)
  from Cons.prems show ?case
    by (auto simp: phase_simps split: phase_splits intro!: Cons.IH)
qed

lemma extends_pollSendButton [intro!]:
  "extends K w v \<Longrightarrow> polling \<subseteq> K \<Longrightarrow> extends K w (snd (pollSendButton env start v))"
proof (induction env start v rule: pollSendButton.induct)
  case (1 env waitStartTime v)
  define b where "b = fst (trySelectors env sendButtonSelectors v)"
  define w1 where "w1 = snd (trySelectors env sendButtonSelectors v)"
  have T: "trySelectors env sendButtonSelectors v = (b, w1)"
    by (simp add: b_def w1_def)
  have e1: "extends K w w1"
    using "1.prems" by (auto simp: w1_def polling_def)
  show ?case
  proof (cases "clock v - waitStartTime < 30 * Second")
    case False
    with "1.prems" show ?thesis
      by (subst pollSendButton.simps) simp
  next
    case True
    show ?thesis
    proof (cases b)
      case (Some el)
      with True T e1 show ?thesis
        by (subst pollSendButton.simps) simp
    next
      case None
      have "extends K w (time_Sleep env (500 * Millisecond) w1)"
        using e1 "1.prems" by (auto simp: polling_def)
      then have "extends K w (snd (pollSendButton env waitStartTime (time_Sleep env (500 * Millisecond) w1)))"
        using "1.IH"[OF True T[symmetric] None] "1.prems" by simp
      with True T None show ?thesis
        by (subst pollSendButton.simps) simp
    qed
  qed
qed

lemma extends_sendWithoutButton [intro!]:
  "extends K w v \<Longrightarrow> {KFindElement, KIsDisplayed, KSendKeys, KSleep} \<union> logging \<subseteq> K \<Longrightarrow>
     extends K w (snd (sendWithoutButton env lf number v))"
  by (auto simp: sendWithoutButton_def skipUnsent_def phase_simps split: phase_splits)

lemma extends_clickSendButton [intro!]:
  "extends K w v \<Longrightarrow> {KClick, KFindElement, KSendKeys, KSleep} \<union> logging \<subseteq> K \<Longrightarrow>
     extends K w (snd (clickSendButton env lf number b v))"
  by (auto simp: clickSendButton_def skipPersistent_def phase_simps split: phase_splits)

lemma extends_processNumber [intro!]:
  "extends K w v \<Longrightarrow> sending \<subseteq> K \<Longrightarrow>
     extends K w (snd (processNumber env lf enc number v))"
  by (auto simp: processNumber_def sending_def polling_def phase_simps split: phase_splits)

lemma extends_sendMessages [intro!]:
  "extends K w v \<Longrightarrow> sending \<subseteq> K \<Longrightarrow>
     extends K w (snd (sendMessages env lf enc numbers v))"
proof (induction numbers arbitrary: v)
  case Nil
  then show ?case by simp
next
  case (Cons number numbers)
  from Cons.prems show ?case
    by (auto simp: split_beta intro!: Cons.IH)
qed

lemma extends_finish [intro!]:
  "extends K w v \<Longrightarrow> {KSleep, KQuit, KServiceStop, KFileClose} \<union> logging \<subseteq> K \<Longrightarrow>
     extends K w (snd ((), finish env lf v))"
  by (auto simp: finish_def phase_simps)

subsection \<open>The steps of each part of the program\<close>

lemma step_of_sendButton:
  "selector \<in> set sendButtonSelectors \<Longrightarrow>
     step_of (FindElement (fst selector) (snd selector)) = Some PollForSendControl"
  by (cases selector) (auto simp: sendButtonSelectors_def loginCheckSelector_def)

lemma step_of_messageBox:
  "step_of (FindElement ByCSSSelector messageBoxSelector) = Some FindMessageBox"
  by (simp add: sendButtonSelectors_def loginCheckSelector_def messageBoxSelector_def)

lemma step_of_Sleep [simp]:
  "step_of (Sleep (2 * Second)) = Some (PauseBeforeNext (2 * Second))"
  "step_of (Sleep (5 * Second)) = Some (PauseBeforeNext (5 * Second))"
  "step_of (Sleep (3 * Second)) = None"
  "step_of (Sleep (10 * Second)) = None"
  "step_of (Sleep Second) = None"
  "step_of (Sleep (500 * Millisecond)) = None"
  by (simp_all add: Second_def Millisecond_def)

declare step_of.simps(10) [simp del]
declare step_of.simps(4) [simp del]

lemma step_of_login [simp]:
  "step_of (FindElement ByCSSSelector loginCheckSelector) = Some PollForLogin"
  by (simp add: step_of.simps(4))


lemma steps_logMessage [simp]:
  "steps (trace (logMessage env lf fmt ops w)) = steps (trace w)"
  by (simp add: logMessage_def phase_simps split: phase_splits)

lemma steps_openLogFile:
  "steps (trace (snd (openLogFile env w))) = steps (trace w)"
  by (simp add: openLogFile_def phase_simps split: phase_splits)

lemma steps_setupLogFile:
  "steps (trace (snd (setupLogFile env w))) = steps (trace w)"
  by (simp add: setupLogFile_def steps_openLogFile phase_simps split: phase_splits)

lemma steps_log_Fatalf [simp]:
  "steps (trace (log_Fatalf env m w)) = steps (trace w)"
  by (simp add: phase_simps split: phase_splits)

lemma steps_startService:
  "steps (trace (snd (startService env lf w))) = add_step StartDriverService (steps (trace w))"
  by (simp add: startService_def chromeDriverPath_nonempty phase_simps split: phase_splits)

lemma steps_setupCapabilities:
  "steps (trace (snd (setupCapabilities env lf w))) = steps (trace w)"
  by (simp add: setupCapabilities_def os_IsNotExist_def phase_simps split: phase_splits)

lemma steps_connectWebDriver:
  "steps (trace (snd (connectWebDriver env lf cargs w))) = add_step OpenBrowserSession (steps (trace w))"
  by (simp add: connectWebDriver_def phase_simps split: phase_splits)


lemma steps_waitForLogin:
  "steps (trace (snd (waitForLogin env lf start w))) = add_step PollForLogin (steps (trace w))"
proof (induction env lf start w rule: waitForLogin.induct)
  case (1 env logFile startTime w)
  define f where "f = fst (wd_FindElement env ByCSSSelector loginCheckSelector w)"
  define w1 where "w1 = snd (wd_FindElement env ByCSSSelector loginCheckSelector w)"
  have F: "wd_FindElement env ByCSSSelector loginCheckSelector w = (f, w1)"
    by (simp add: f_def w1_def)
  have st: "steps (trace w1) = add_step PollForLogin (steps (trace w))"
    by (simp add: w1_def phase_simps split: phase_splits)
  show ?case
  proof (cases f)
    case (Inr el)
    with F st show ?thesis
      by (subst waitForLogin.simps) simp
  next
    case (Inl e)
    show ?thesis
    proof (cases "120 * Second < clock w1 - startTime")
      case True
      with F Inl st show ?thesis
        by (subst waitForLogin.simps) simp
    next
      case False
      have "steps (trace (snd (waitForLogin env logFile startTime (time_Sleep env (1 * Second) w1))))
          = add_step PollForLogin (steps (trace (time_Sleep env (1 * Second) w1)))"
        using "1.IH"[OF F[symmetric] Inl False] .
      with F Inl False st show ?thesis
        by (subst waitForLogin.simps) simp
    qed
  qed
qed

lemma steps_loginWhatsApp:
  "steps (trace (snd (loginWhatsApp env lf w))) =
     (if reply_error env (calls w) (Get whatsAppURL) = None then
        add_step PollForLogin (add_step (Navigate whatsAppURL) (steps (trace w)))
      else add_step (Navigate whatsAppURL) (steps (trace w)))"
  by (simp add: loginWhatsApp_def steps_waitForLogin phase_simps split: phase_splits)

lemma steps_readLines:
  "steps (trace (snd (readLines env path w))) = add_step (ReadInput path) (steps (trace w))"
  by (simp add: readLines_def phase_simps split: phase_splits)

lemma steps_readNumbers:
  "steps (trace (snd (readNumbers env lf w))) = add_step (ReadInput numbersFilePath) (steps (trace w))"
  by (simp add: readNumbers_def steps_readLines phase_simps split: phase_splits)

lemma steps_readMessage:
  "steps (trace (snd (readMessage env lf w))) = add_step (ReadInput messageFilePath) (steps (trace w))"
  by (simp add: readMessage_def phase_simps split: phase_splits)

lemma steps_trySelectors:
  "set sels \<subseteq> set sendButtonSelectors \<Longrightarrow>
     steps (trace (snd (trySelectors env sels w))) =
       (if sels = [] then steps (trace w) else add_step PollForSendControl (steps (trace w)))"
proof (induction sels arbitrary: w)
  case Nil
  show ?case by simp
next
  case (Cons selector rest)
  then have sel: "step_of (FindElement (fst selector) (snd selector)) = Some PollForSendControl"
    by (simp add: step_of_sendButton)
  from Cons have IH: "steps (trace (snd (trySelectors env rest v))) =
       (if rest = [] then steps (trace v) else add_step PollForSendControl (steps (trace v)))" for v
    by simp
  show ?case
    by (simp add: sel IH phase_simps split: phase_splits)
qed

lemma steps_pollSendButton:
  "steps (trace (snd (pollSendButton env start w))) =
     (if clock w - start < 30 * Second then add_step PollForSendControl (steps (trace w))
      else steps (trace w))"
proof (induction env start w rule: pollSendButton.induct)
  case (1 env waitStartTime w)
  have ne: "sendButtonSelectors \<noteq> []"
    by (simp add: sendButtonSelectors_def)
  obtain b w1 where T: "trySelectors env sendButtonSelectors w = (b, w1)"
    by fastforce
  with steps_trySelectors[of sendButtonSelectors env w] ne
  have st: "steps (trace w1) = add_step PollForSendControl (steps (trace w))"
    by simp
  show ?case
  proof (cases "clock w - waitStartTime < 30 * Second")
    case False
    then show ?thesis
      by (subst pollSendButton.simps) simp
  next
    case True
    show ?thesis
    proof (cases b)
      case (Some el)
      with True T st show ?thesis
        by (subst pollSendButton.simps) simp
    next
      case None
      have "steps (trace (snd (pollSendButton env waitStartTime (time_Sleep env (500 * Millisecond) w1)))) =
          (if clock (time_Sleep env (500 * Millisecond) w1) - waitStartTime < 30 * Second
           then add_step PollForSendControl (steps (trace (time_Sleep env (500 * Millisecond) w1)))
           else steps (trace (time_Sleep env (500 * Millisecond) w1)))"
        using "1.IH"[OF True T[symmetric] None] .
      with True T None st show ?thesis
        by (subst pollSendButton.simps) simp
    qed
  qed
qed

lemma steps_sendWithoutButton:
  assumes "steps (trace w) = st @ [Navigate url, PollForSendControl]"
  shows "\<exists>seg. steps (trace (snd (sendWithoutButton env lf number w))) = st @ seg
           \<and> iteration_shape url (fst (sendWithoutButton env lf number w)) seg"
  using assms
  by (simp add: sendWithoutButton_def skipUnsent_def step_of_messageBox iteration_shape_def
        phase_simps split: phase_splits)

lemma steps_clickSendButton:
  assumes "steps (trace w) = st @ [Navigate url, PollForSendControl]"
  shows "\<exists>seg. steps (trace (snd (clickSendButton env lf number b w))) = st @ seg
           \<and> iteration_shape url (fst (clickSendButton env lf number b w)) seg"
  using assms
  by (simp add: clickSendButton_def skipPersistent_def step_of_messageBox iteration_shape_def
        phase_simps split: phase_splits)

lemma iteration_shape_end:
  "iteration_shape url b seg \<Longrightarrow> seg = [] \<or> (\<exists>pre d. seg = pre @ [PauseBeforeNext d])"
  by (cases b) (auto simp: iteration_shape_def)

lemma steps_processNumber:
  assumes st: "steps (trace w) = st @ [s]" and s: "\<forall>u. s \<noteq> Navigate u" "s \<noteq> PollForSendControl"
  shows "\<exists>seg. steps (trace (snd (processNumber env lf enc number w))) = st @ s # seg
           \<and> iteration_shape (sendURL enc number) (fst (processNumber env lf enc number w)) seg"
proof (cases "number = []")
  case True
  with st show ?thesis
    by (simp add: processNumber_def iteration_shape_def)
next
  case False
  define url where "url = sendURL enc number"
  define g where "g = fst (wd_Get env url w)"
  define w1 where "w1 = snd (wd_Get env url w)"
  have st1: "steps (trace w1) = st @ [s, Navigate url]"
    using st s by (simp add: w1_def phase_simps)
  show ?thesis
  proof (cases g)
    case (Some e)
    with False st1 s show ?thesis
      by (simp add: processNumber_def sendURL_def[symmetric] url_def[symmetric] g_def[symmetric]
            w1_def[symmetric] Let_def split_beta iteration_shape_def)
  next
    case None
    define p where "p = fst (pollSendButton env (clock w1) w1)"
    define w2 where "w2 = snd (pollSendButton env (clock w1) w1)"
    have "steps (trace w2) = add_step PollForSendControl (steps (trace w1))"
      by (simp add: w2_def steps_pollSendButton Second_pos)
    with st1 have st2: "steps (trace w2) = (st @ [s]) @ [Navigate url, PollForSendControl]"
      by simp
    show ?thesis
    proof (cases p)
      case None
      from steps_sendWithoutButton[OF st2, of env lf number] obtain seg where
        "steps (trace (snd (sendWithoutButton env lf number w2))) = (st @ [s]) @ seg"
        "iteration_shape url (fst (sendWithoutButton env lf number w2)) seg"
        by blast
      with False \<open>g = None\<close> None show ?thesis
        by (simp add: processNumber_def sendURL_def[symmetric] url_def[symmetric] g_def[symmetric]
              w1_def[symmetric] p_def[symmetric] w2_def[symmetric] Let_def split_beta)
    next
      case (Some b)
      from steps_clickSendButton[OF st2, of env lf number b] obtain seg where
        "steps (trace (snd (clickSendButton env lf number b w2))) = (st @ [s]) @ seg"
        "iteration_shape url (fst (clickSendButton env lf number b w2)) seg"
        by blast
      with False \<open>g = None\<close> Some show ?thesis
        by (simp add: processNumber_def sendURL_def[symmetric] url_def[symmetric] g_def[symmetric]
              w1_def[symmetric] p_def[symmetric] w2_def[symmetric] Let_def split_beta)
    qed
  qed
qed

lemma steps_sendMessages:
  assumes "steps (trace w) = st @ [s]" and "s = ReadInput messageFilePath \<or> (\<exists>d. s = PauseBeforeNext d)"
  shows "\<exists>segs. steps (trace (snd (sendMessages env lf enc numbers w))) = st @ s # concat segs
           \<and> list_all2 (\<lambda>(number, b) seg. iteration_shape (sendURL enc number) b seg)
                (zip numbers (fst (sendMessages env lf enc numbers w))) segs"
  using assms
proof (induction numbers arbitrary: w st s)
  case Nil
  then show ?case by simp
next
  case (Cons number numbers)
  define b where "b = fst (processNumber env lf enc number w)"
  define w1 where "w1 = snd (processNumber env lf enc number w)"
  have s: "\<forall>u. s \<noteq> Navigate u" "s \<noteq> PollForSendControl"
    using Cons.prems(2) by auto
  from steps_processNumber[OF Cons.prems(1) s, of env lf enc number] obtain seg where
    st1: "steps (trace w1) = st @ s # seg" and sh: "iteration_shape (sendURL enc number) b seg"
    by (auto simp: w1_def b_def)
  have unfold: "sendMessages env lf enc (number # numbers) w =
      (b # fst (sendMessages env lf enc numbers w1), snd (sendMessages env lf enc numbers w1))"
    by (simp add: b_def w1_def split_beta)
  from iteration_shape_end[OF sh]
  show ?case
  proof
    assume e: "seg = []"
    with st1 have "steps (trace w1) = st @ [s]" by simp
    from Cons.IH[OF this Cons.prems(2)] obtain segs where
      "steps (trace (snd (sendMessages env lf enc numbers w1))) = st @ s # concat segs"
      "list_all2 (\<lambda>(number, b) seg. iteration_shape (sendURL enc number) b seg)
         (zip numbers (fst (sendMessages env lf enc numbers w1))) segs"
      by blast
    with sh e show ?thesis
      unfolding unfold by (intro exI[of _ "[] # segs"]) simp
  next
    assume "\<exists>pre d. seg = pre @ [PauseBeforeNext d]"
    then obtain pre d where pre: "seg = pre @ [PauseBeforeNext d]"
      by blast
    with st1 have "steps (trace w1) = (st @ s # pre) @ [PauseBeforeNext d]" by simp
    from Cons.IH[OF this] obtain segs where
      "steps (trace (snd (sendMessages env lf enc numbers w1))) =
         (st @ s # pre) @ PauseBeforeNext d # concat segs"
      "list_all2 (\<lambda>(number, b) seg. iteration_shape (sendURL enc number) b seg)
         (zip numbers (fst (sendMessages env lf enc numbers w1))) segs"
      by blast
    with sh pre show ?thesis
      unfolding unfold by (intro exI[of _ "seg # segs"]) simp
  qed
qed

lemma steps_finish:
  "steps (trace (finish env lf w)) = steps (trace w)"
  by (simp add: finish_def phase_simps)

subsection \<open>The ways through \<open>main\<close>\<close>

lemma main_cases [consumes 1, case_names LogSetup Service Capabilities Connect Login Numbers Message Done]:
  assumes "main env w0 = (res, w')"
  obtains
    (LogSetup) e w1 where
      "setupLogFile env w0 = (Inl e, w1)"
      "res = (Exited 1, [])"
      "w' = log_Fatalf env (Sprintf ''Error setting up log file: %v'' [e]) w1"
  | (Service) lf w1 code w2 where
      "setupLogFile env w0 = (Inr lf, w1)"
      "startService env lf (logMessage env (Some lf) ''Application started.\<newline>'' [] w1) = (Inl code, w2)"
      "res = (Exited code, [])" "w' = w2"
  | (Capabilities) lf w1 u w2 code w3 where
      "setupLogFile env w0 = (Inr lf, w1)"
      "startService env lf (logMessage env (Some lf) ''Application started.\<newline>'' [] w1) = (Inr u, w2)"
      "setupCapabilities env lf w2 = (Inl code, w3)"
      "res = (Exited code, [])" "w' = w3"
  | (Connect) lf w1 u w2 chromeArgs w3 code w4 where
      "setupLogFile env w0 = (Inr lf, w1)"
      "startService env lf (logMessage env (Some lf) ''Application started.\<newline>'' [] w1) = (Inr u, w2)"
      "setupCapabilities env lf w2 = (Inr chromeArgs, w3)"
      "connectWebDriver env lf chromeArgs w3 = (Inl code, w4)"
      "res = (Exited code, [])" "w' = w4"
  | (Login) lf w1 u w2 chromeArgs w3 u' w4 code w5 where
      "setupLogFile env w0 = (Inr lf, w1)"
      "startService env lf (logMessage env (Some lf) ''Application started.\<newline>'' [] w1) = (Inr u, w2)"
      "setupCapabilities env lf w2 = (Inr chromeArgs, w3)"
      "connectWebDriver env lf chromeArgs w3 = (Inr u', w4)"
      "loginWhatsApp env lf w4 = (Inl code, w5)"
      "res = (Exited code, [])" "w' = w5"
  | (Numbers) lf w1 u w2 chromeArgs w3 u' w4 u'' w5 code w6 where
      "setupLogFile env w0 = (Inr lf, w1)"
      "startService env lf (logMessage env (Some lf) ''Application started.\<newline>'' [] w1) = (Inr u, w2)"
      "setupCapabilities env lf w2 = (Inr chromeArgs, w3)"
      "connectWebDriver env lf chromeArgs w3 = (Inr u', w4)"
      "loginWhatsApp env lf w4 = (Inr u'', w5)"
      "readNumbers env lf w5 = (Inl code, w6)"
      "res = (Exited code, [])" "w' = w6"
  | (Message) lf w1 u w2 chromeArgs w3 u' w4 u'' w5 numbers w6 code w7 where
      "setupLogFile env w0 = (Inr lf, w1)"
      "startService env lf (logMessage env (Some lf) ''Application started.\<newline>'' [] w1) = (Inr u, w2)"
      "setupCapabilities env lf w2 = (Inr chromeArgs, w3)"
      "connectWebDriver env lf chromeArgs w3 = (Inr u', w4)"
      "loginWhatsApp env lf w4 = (Inr u'', w5)"
      "readNumbers env lf w5 = (Inr numbers, w6)"
      "readMessage env lf w6 = (Inl code, w7)"
      "res = (Exited code, [])" "w' = w7"
  | (Done) lf w1 u w2 chromeArgs w3 u' w4 u'' w5 numbers w6 enc w7 bs w8 where
      "setupLogFile env w0 = (Inr lf, w1)"
      "startService env lf (logMessage env (Some lf) ''Application started.\<newline>'' [] w1) = (Inr u, w2)"
      "setupCapabilities env lf w2 = (Inr chromeArgs, w3)"
      "connectWebDriver env lf chromeArgs w3 = (Inr u', w4)"
      "loginWhatsApp env lf w4 = (Inr u'', w5)"
      "readNumbers env lf w5 = (Inr numbers, w6)"
      "readMessage env lf w6 = (Inr enc, w7)"
      "sendMessages env lf enc numbers w7 = (bs, w8)"
      "res = (Returned, bs)" "w' = finish env lf w8"
proof (cases "setupLogFile env w0")
  case (Pair r1 w1)
  show thesis
  proof (cases r1)
    case (Inl e)
    with Pair assms show thesis by (intro LogSetup[of e w1]) (simp_all add: main_def)
  next
    case (Inr lf)
    note s1 = Pair[unfolded Inr]
    show thesis
    proof (cases "startService env lf (logMessage env (Some lf) ''Application started.\<newline>'' [] w1)")
      case (Pair r2 w2)
      show thesis
      proof (cases r2)
        case (Inl code)
        with Pair s1 assms show thesis by (intro Service[of lf w1 code w2]) (simp_all add: main_def)
      next
        case (Inr u)
        note s2 = Pair[unfolded Inr]
        show thesis
        proof (cases "setupCapabilities env lf w2")
          case (Pair r3 w3)
          show thesis
          proof (cases r3)
            case (Inl code)
            with Pair s1 s2 assms show thesis
              by (intro Capabilities[of lf w1 u w2 code w3]) (simp_all add: main_def)
          next
            case (Inr chromeArgs)
            note s3 = Pair[unfolded Inr]
            show thesis
            proof (cases "connectWebDriver env lf chromeArgs w3")
              case (Pair r4 w4)
              show thesis
              proof (cases r4)
                case (Inl code)
                with Pair s1 s2 s3 assms show thesis
                  by (intro Connect[of lf w1 u w2 chromeArgs w3 code w4]) (simp_all add: main_def)
              next
                case (Inr u')
                note s4 = Pair[unfolded Inr]
                show thesis
                proof (cases "loginWhatsApp env lf w4")
                  case (Pair r5 w5)
                  show thesis
                  proof (cases r5)
                    case (Inl code)
                    with Pair s1 s2 s3 s4 assms show thesis
                      by (intro Login[of lf w1 u w2 chromeArgs w3 u' w4 code w5]) (simp_all add: main_def)
                  next
                    case (Inr u'')
                    note s5 = Pair[unfolded Inr]
                    show thesis
                    proof (cases "readNumbers env lf w5")
                      case (Pair r6 w6)
                      show thesis
                      proof (cases r6)
                        case (Inl code)
                        with Pair s1 s2 s3 s4 s5 assms show thesis
                          by (intro Numbers[of lf w1 u w2 chromeArgs w3 u' w4 u'' w5 code w6])
                             (simp_all add: main_def)
                      next
                        case (Inr numbers)
                        note s6 = Pair[unfolded Inr]
                        show thesis
                        proof (cases "readMessage env lf w6")
                          case (Pair r7 w7)
                          show thesis
                          proof (cases r7)
                            case (Inl code)
                            with Pair s1 s2 s3 s4 s5 s6 assms show thesis
                              by (intro Message[of lf w1 u w2 chromeArgs w3 u' w4 u'' w5 numbers w6 code w7])
                                 (simp_all add: main_def)
                          next
                            case (Inr enc)
                            note s7 = Pair[unfolded Inr]
                            obtain bs w8 where s8: "sendMessages env lf enc numbers w7 = (bs, w8)"
                              by fastforce
                            with s1 s2 s3 s4 s5 s6 s7 assms show thesis
                              by (intro Done[of lf w1 u w2 chromeArgs w3 u' w4 u'' w5 numbers w6 enc w7 bs w8])
                                 (simp_all add: main_def)
                          qed
                        qed
                      qed
                    qed
                  qed
                qed
              qed
            qed
          qed
        qed
      qed
    qed
  qed
qed

lemma exit_codes:
  "startService env lf w = (Inl c, w1) \<Longrightarrow> c = 1"
  "setupCapabilities env lf w = (Inl c, w1) \<Longrightarrow> c = 1"
  "connectWebDriver env lf cargs w = (Inl c, w1) \<Longrightarrow> c = 1"
  "loginWhatsApp env lf w = (Inl c, w1) \<Longrightarrow> c = 1"
  "readNumbers env lf w = (Inl c, w1) \<Longrightarrow> c = 1"
  "readMessage env lf w = (Inl c, w1) \<Longrightarrow> c = 1"
  by (auto simp: startService_def setupCapabilities_def connectWebDriver_def loginWhatsApp_def
        readNumbers_def readMessage_def Let_def
      split: prod.splits option.splits sum.splits if_splits)

lemma loginWhatsApp_Inr:
  "loginWhatsApp env lf w = (Inr u, w1) \<Longrightarrow> reply_error env (calls w) (Get whatsAppURL) = None"
  by (auto simp: loginWhatsApp_def wd_Get_def attempt_def split: prod.splits option.splits)

lemma startup_distinct: "numbersFilePath \<noteq> messageFilePath"
  by (simp add: numbersFilePath_def messageFilePath_def)

lemma snd_eqD: "f = (r, w1) \<Longrightarrow> snd f = w1" and fst_eqD: "f = (r, w1) \<Longrightarrow> fst f = r"
  by simp_all

lemma main_steps_exit:
  assumes "main env w0 = ((Exited c, bs), w')" and "trace w0 = []"
  shows "c = 1 \<and> bs = [] \<and> (\<exists>k\<le>6. steps (trace w') = take k startup_steps)"
  using assms(1)
proof (cases rule: main_cases)
  case (LogSetup e w1)
  with steps_setupLogFile[of env w0] assms(2) show ?thesis
    by (auto intro!: exI[of _ 0])
next
  case (Service lf w1 code w2)
  with steps_setupLogFile[of env w0] assms(2)
    steps_startService[of env lf "logMessage env (Some lf) ''Application started.\<newline>'' [] w1"]
    exit_codes(1)[OF Service(2)]
  show ?thesis
    by (auto simp: startup_steps_def intro!: exI[of _ 1])
next
  case (Capabilities lf w1 u w2 code w3)
  with steps_setupLogFile[of env w0] assms(2)
    steps_startService[of env lf "logMessage env (Some lf) ''Application started.\<newline>'' [] w1"]
    steps_setupCapabilities[of env lf w2] exit_codes(2)[OF Capabilities(3)]
  show ?thesis
    by (auto simp: startup_steps_def intro!: exI[of _ 1])
next
  case (Connect lf w1 u w2 chromeArgs w3 code w4)
  with steps_setupLogFile[of env w0] assms(2)
    steps_startService[of env lf "logMessage env (Some lf) ''Application started.\<newline>'' [] w1"]
    steps_setupCapabilities[of env lf w2] steps_connectWebDriver[of env lf chromeArgs w3]
    exit_codes(3)[OF Connect(4)]
  show ?thesis
    by (auto simp: startup_steps_def intro!: exI[of _ 2])
next
  case (Login lf w1 u w2 chromeArgs w3 u' w4 code w5)
  with steps_setupLogFile[of env w0] assms(2)
    steps_startService[of env lf "logMessage env (Some lf) ''Application started.\<newline>'' [] w1"]
    steps_setupCapabilities[of env lf w2] steps_connectWebDriver[of env lf chromeArgs w3]
    steps_loginWhatsApp[of env lf w4] exit_codes(4)[OF Login(5)]
  have "code = 1" and "steps (trace w5) = take 3 startup_steps \<or> steps (trace w5) = take 4 startup_steps"
    by (auto simp: startup_steps_def)
  with Login show ?thesis
    by (auto intro: exI[of _ 3] exI[of _ 4])
next
  case (Numbers lf w1 u w2 chromeArgs w3 u' w4 u'' w5 code w6)
  with steps_setupLogFile[of env w0] assms(2)
    steps_startService[of env lf "logMessage env (Some lf) ''Application started.\<newline>'' [] w1"]
    steps_setupCapabilities[of env lf w2] steps_connectWebDriver[of env lf chromeArgs w3]
    steps_loginWhatsApp[of env lf w4] loginWhatsApp_Inr[OF Numbers(5)]
    steps_readNumbers[of env lf w5] exit_codes(5)[OF Numbers(6)]
  show ?thesis
    by (auto simp: startup_steps_def intro!: exI[of _ 5])
next
  case (Message lf w1 u w2 chromeArgs w3 u' w4 u'' w5 numbers w6 code w7)
  with steps_setupLogFile[of env w0] assms(2)
    steps_startService[of env lf "logMessage env (Some lf) ''Application started.\<newline>'' [] w1"]
    steps_setupCapabilities[of env lf w2] steps_connectWebDriver[of env lf chromeArgs w3]
    steps_loginWhatsApp[of env lf w4] loginWhatsApp_Inr[OF Message(5)]
    steps_readNumbers[of env lf w5] steps_readMessage[of env lf w6] exit_codes(6)[OF Message(7)]
  show ?thesis
    by (auto simp: startup_steps_def startup_distinct intro!: exI[of _ 6])
next
  case Done
  then show ?thesis by simp
qed

subsection \<open>Navigations and reads of each part of the program\<close>

lemma only_simps [simp]:
  "only K [] = []"
  "only K (Ev c r # tr) = (if kind_of c \<in> K then Ev c r # only K tr else only K tr)"
  "only K (xs @ ys) = only K xs @ only K ys"
  by (simp_all add: only_def call_of_def)

lemma only_unaffected:
  assumes "extends K w w'" and "K \<inter> K' = {}"
  shows "only K' (trace w') = only K' (trace w)"
proof -
  from assms(1) obtain es where es: "trace w' = trace w @ es" "within K es"
    by (auto simp: extends_iff)
  from es(2) assms(2) have "only K' es = []"
    by (auto simp: only_def within_def list_all_iff filter_empty_conv)
  with es(1) show ?thesis by simp
qed

lemma navigation_kind: "kind_of c \<noteq> KGet \<Longrightarrow> navigation c = None"
  by (cases c) simp_all

lemma navigations_unaffected:
  assumes "extends K w w'" and "KGet \<notin> K"
  shows "navigations (trace w') = navigations (trace w)"
proof -
  from assms(1) obtain es where es: "trace w' = trace w @ es" "within K es"
    by (auto simp: extends_iff)
  have "navigation (call_of e) = None" if "e \<in> set es" for e
  proof -
    from that es(2) have "kind_of (call_of e) \<in> K"
      by (simp add: within_def list_all_iff)
    with assms(2) have "kind_of (call_of e) \<noteq> KGet" by auto
    then show ?thesis by (rule navigation_kind)
  qed
  then have "navigations es = []"
    by (simp add: navigations_def List.map_filter_def filter_empty_conv)
  with es(1) show ?thesis by simp
qed

lemma navigations_logMessage [simp]:
  "navigations (trace (logMessage env lf fmt ops w)) = navigations (trace w)"
  by (rule navigations_unaffected[OF extends_logMessage[OF extends_refl subset_refl]])
     (simp add: logging_def)

lemma navigations_quiet:
  "navigations (trace (snd (setupLogFile env w))) = navigations (trace w)"
  "navigations (trace (log_Fatalf env m w)) = navigations (trace w)"
  "navigations (trace (snd (startService env lf w))) = navigations (trace w)"
  "navigations (trace (snd (setupCapabilities env lf w))) = navigations (trace w)"
  "navigations (trace (snd (connectWebDriver env lf cargs w))) = navigations (trace w)"
  "navigations (trace (snd (waitForLogin env lf start w))) = navigations (trace w)"
  "navigations (trace (snd (readNumbers env lf w))) = navigations (trace w)"
  "navigations (trace (snd (readMessage env lf w))) = navigations (trace w)"
  "navigations (trace (snd (pollSendButton env start w))) = navigations (trace w)"
  "navigations (trace (snd (sendWithoutButton env lf number w))) = navigations (trace w)"
  "navigations (trace (snd (clickSendButton env lf number b w))) = navigations (trace w)"
  "navigations (trace (finish env lf w)) = navigations (trace w)"
  using navigations_unaffected[OF extends_setupLogFile[OF extends_refl subset_refl], of env w]
    navigations_unaffected[OF extends_log_Fatalf[OF extends_refl subset_refl], of env m w]
    navigations_unaffected[OF extends_startService[OF extends_refl subset_refl], of env lf w]
    navigations_unaffected[OF extends_setupCapabilities[OF extends_refl subset_refl], of env lf w]
    navigations_unaffected[OF extends_connectWebDriver[OF extends_refl subset_refl], of env lf cargs w]
    navigations_unaffected[OF extends_waitForLogin[OF extends_refl subset_refl], of env lf start w]
    navigations_unaffected[OF extends_readNumbers[OF extends_refl subset_refl], of env lf w]
    navigations_unaffected[OF extends_readMessage[OF extends_refl subset_refl], of env lf w]
    navigations_unaffected[OF extends_pollSendButton[OF extends_refl subset_refl], of env start w]
    navigations_unaffected[OF extends_sendWithoutButton[OF extends_refl subset_refl], of env lf number w]
    navigations_unaffected[OF extends_clickSendButton[OF extends_refl subset_refl], of env lf number b w]
    navigations_unaffected[OF extends_finish[OF extends_refl subset_refl], of env lf w]
  by (simp_all add: logging_def polling_def)

lemma navigations_loginWhatsApp:
  "navigations (trace (snd (loginWhatsApp env lf w))) = navigations (trace w) @ [whatsAppURL]"
  by (simp add: loginWhatsApp_def navigations_quiet phase_simps split: phase_splits)

lemma navigations_processNumber:
  "navigations (trace (snd (processNumber env lf enc number w))) =
     navigations (trace w) @ (if number = [] then [] else [sendURL enc number])"
  by (simp add: processNumber_def sendURL_def navigations_quiet phase_simps split: phase_splits)

lemma navigations_sendMessages:
  "navigations (trace (snd (sendMessages env lf enc numbers w))) =
     navigations (trace w) @ map (sendURL enc) (filter (\<lambda>n. n \<noteq> []) numbers)"
  by (induction numbers arbitrary: w) (simp_all add: split_beta navigations_processNumber)

lemma only_quiet:
  "logging \<inter> K' = {} \<Longrightarrow> only K' (trace (logMessage env olf fmt ops w)) = only K' (trace w)"
  "{KStat, KMkdirAll, KNowFormat, KOpenFile, KStdout} \<inter> K' = {} \<Longrightarrow>
     only K' (trace (snd (setupLogFile env w))) = only K' (trace w)"
  "{KStderr, KExit} \<inter> K' = {} \<Longrightarrow> only K' (trace (log_Fatalf env m w)) = only K' (trace w)"
  "insert KNewChromeDriverService (insert KExit logging) \<inter> K' = {} \<Longrightarrow>
     only K' (trace (snd (startService env lf w))) = only K' (trace w)"
  "({KAbs, KStat, KMkdirAll, KExit} \<union> logging) \<inter> K' = {} \<Longrightarrow>
     only K' (trace (snd (setupCapabilities env lf w))) = only K' (trace w)"
  "({KNewRemote, KExit} \<union> logging) \<inter> K' = {} \<Longrightarrow>
     only K' (trace (snd (connectWebDriver env lf cargs w))) = only K' (trace w)"
  "({KGet, KFindElement, KSleep, KExit} \<union> logging) \<inter> K' = {} \<Longrightarrow>
     only K' (trace (snd (loginWhatsApp env lf w))) = only K' (trace w)"
  "({KOpen, KScan, KFileClose, KExit} \<union> logging) \<inter> K' = {} \<Longrightarrow>
     only K' (trace (snd (readNumbers env lf w))) = only K' (trace w)"
  "({KReadFile, KExit} \<union> logging) \<inter> K' = {} \<Longrightarrow>
     only K' (trace (snd (readMessage env lf w))) = only K' (trace w)"
  "polling \<inter> K' = {} \<Longrightarrow>
     only K' (trace (snd (pollSendButton env start w))) = only K' (trace w)"
  "sending \<inter> K' = {} \<Longrightarrow>
     only K' (trace (snd (processNumber env lf enc number w))) = only K' (trace w)"
  "sending \<inter> K' = {} \<Longrightarrow>
     only K' (trace (snd (sendMessages env lf enc numbers w))) = only K' (trace w)"
  "({KSleep, KQuit, KServiceStop, KFileClose} \<union> logging) \<inter> K' = {} \<Longrightarrow>
     only K' (trace (finish env lf w)) = only K' (trace w)"
  using only_unaffected[OF extends_logMessage[OF extends_refl subset_refl], of K' env olf fmt ops w]
    only_unaffected[OF extends_setupLogFile[OF extends_refl subset_refl], of K' env w]
    only_unaffected[OF extends_log_Fatalf[OF extends_refl subset_refl], of K' env m w]
    only_unaffected[OF extends_startService[OF extends_refl subset_refl], of K' env lf w]
    only_unaffected[OF extends_setupCapabilities[OF extends_refl subset_refl], of K' env lf w]
    only_unaffected[OF extends_connectWebDriver[OF extends_refl subset_refl], of K' env lf cargs w]
    only_unaffected[OF extends_loginWhatsApp[OF extends_refl subset_refl], of K' env lf w]
    only_unaffected[OF extends_readNumbers[OF extends_refl subset_refl], of K' env lf w]
    only_unaffected[OF extends_readMessage[OF extends_refl subset_refl], of K' env lf w]
    only_unaffected[OF extends_pollSendButton[OF extends_refl subset_refl], of K' env start w]
    only_unaffected[OF extends_processNumber[OF extends_refl subset_refl], of K' env lf enc number w]
    only_unaffected[OF extends_sendMessages[OF extends_refl subset_refl], of K' env lf enc numbers w]
    only_unaffected[OF extends_finish[OF extends_refl subset_refl], of K' env lf w]
  by simp_all

subsection \<open>The search for the send control\<close>

lemma pass_events_simps [simp]:
  "pass_events sels [] = []"
  "pass_events [] ps = []"
  "pass_events (selector # sels) (p # ps) = probe_events selector p @ pass_events sels ps"
  by (simp_all add: pass_events_def)

lemma trySelectors_pass:
  "\<exists>ps. trace (snd (trySelectors env sels w)) = trace w @ pass_events sels ps
     \<and> (case fst (trySelectors env sels w) of
          None \<Rightarrow> failed_pass sels ps
        | Some el \<Rightarrow> found_pass sels ps el)"
proof (induction sels arbitrary: w)
  case Nil
  show ?case by (simp add: failed_pass_def)
next
  case (Cons selector rest)
  define f where "f = fst (wd_FindElement env (fst selector) (snd selector) w)"
  define w1 where "w1 = snd (wd_FindElement env (fst selector) (snd selector) w)"
  have F: "wd_FindElement env (fst selector) (snd selector) w = (f, w1)"
    by (simp add: f_def w1_def)
  show ?case
  proof (cases f)
    case (Inl e)
    then have t1: "trace w1 = trace w @ probe_events selector (Absent e)"
      by (auto simp: f_def w1_def wd_FindElement_fst_snd split: option.splits)
    from Cons.IH[of w1] obtain ps where
      ps: "trace (snd (trySelectors env rest w1)) = trace w1 @ pass_events rest ps"
        "case fst (trySelectors env rest w1) of None \<Rightarrow> failed_pass rest ps
         | Some el \<Rightarrow> found_pass rest ps el"
      by blast
    have u: "trySelectors env (selector # rest) w = trySelectors env rest w1"
      using F Inl by simp
    have "trace (snd (trySelectors env (selector # rest) w)) =
        trace w @ pass_events (selector # rest) (Absent e # ps)"
      unfolding u using ps(1) t1 by simp
    moreover have "case fst (trySelectors env (selector # rest) w) of
        None \<Rightarrow> failed_pass (selector # rest) (Absent e # ps)
      | Some el \<Rightarrow> found_pass (selector # rest) (Absent e # ps) el"
      using ps(2) unfolding u
      by (auto simp: failed_pass_def found_pass_def split: option.splits)
    ultimately show ?thesis by blast
  next
    case (Inr el)
    define d where "d = fst (element_IsDisplayed env el w1)"
    define w2 where "w2 = snd (element_IsDisplayed env el w1)"
    define n where "n = fst (element_IsEnabled env el w2)"
    define w3 where "w3 = snd (element_IsEnabled env el w2)"
    have t3: "trace w3 = trace w @ probe_events selector (Present el d n)"
      using Inr
      by (auto simp: f_def w1_def d_def w2_def n_def w3_def phase_simps split: option.splits)
    show ?thesis
    proof (cases "d \<and> n")
      case True
      then have u: "trySelectors env (selector # rest) w = (Some el, w3)"
        using F Inr by (simp add: d_def w2_def n_def w3_def split_beta)
      have "trace (snd (trySelectors env (selector # rest) w)) =
          trace w @ pass_events (selector # rest) [Present el d n]"
        unfolding u using t3 by simp
      moreover have "found_pass (selector # rest) [Present el d n] el"
        using True by (simp add: found_pass_def)
      ultimately show ?thesis unfolding u by (intro exI[of _ "[Present el d n]"]) simp
    next
      case False
      then have u: "trySelectors env (selector # rest) w = trySelectors env rest w3"
        using F Inr by (auto simp: d_def w2_def n_def w3_def split_beta)
      from Cons.IH[of w3] obtain ps where
        ps: "trace (snd (trySelectors env rest w3)) = trace w3 @ pass_events rest ps"
          "case fst (trySelectors env rest w3) of None \<Rightarrow> failed_pass rest ps
           | Some el \<Rightarrow> found_pass rest ps el"
        by blast
      have "trace (snd (trySelectors env (selector # rest) w)) =
          trace w @ pass_events (selector # rest) (Present el d n # ps)"
        unfolding u using ps(1) t3 by simp
      moreover have "case fst (trySelectors env (selector # rest) w) of
          None \<Rightarrow> failed_pass (selector # rest) (Present el d n # ps)
        | Some el' \<Rightarrow> found_pass (selector # rest) (Present el d n # ps) el'"
        using ps(2) False unfolding u
        by (auto simp: failed_pass_def found_pass_def split: option.splits)
      ultimately show ?thesis by blast
    qed
  qed
qed

lemma clock_trySelectors: "clock w \<le> clock (snd (trySelectors env sels w))"
proof (induction sels arbitrary: w)
  case Nil
  show ?case by simp
next
  case (Cons selector rest)
  show ?case
    by (auto simp: phase_simps split: phase_splits intro: order_trans[OF _ Cons.IH])
qed


lemma poll_events_simps [simp]:
  "poll_events [] final = pass_events sendButtonSelectors final"
  "poll_events (ps # fails) final =
     pass_events sendButtonSelectors ps @ Ev (Sleep (500 * Millisecond)) Done # poll_events fails final"
  by (simp_all add: poll_events_def)

text \<open>
  The search, pass by pass. \<open>ws\<close> are the states of the process in which the passes
  that found nothing began, and the state after the last of them.
\<close>

lemma pollSendButton_passes:
  assumes "start \<le> clock w"
  shows "\<exists>ws fails final.
      length ws = Suc (length fails) \<and> hd ws = w
    \<and> (\<forall>i<length fails.
          clock (ws ! i) - start < 30 * Second
        \<and> fst (trySelectors env sendButtonSelectors (ws ! i)) = None
        \<and> trace (snd (trySelectors env sendButtonSelectors (ws ! i))) =
            trace (ws ! i) @ pass_events sendButtonSelectors (fails ! i)
        \<and> failed_pass sendButtonSelectors (fails ! i)
        \<and> ws ! Suc i =
            time_Sleep env (500 * Millisecond) (snd (trySelectors env sendButtonSelectors (ws ! i))))
    \<and> (case fst (pollSendButton env start w) of
         None \<Rightarrow> final = [] \<and> snd (pollSendButton env start w) = last ws
                  \<and> 30 * Second \<le> clock (last ws) - start
       | Some el \<Rightarrow> found_pass sendButtonSelectors final el
                  \<and> clock (last ws) - start < 30 * Second
                  \<and> trySelectors env sendButtonSelectors (last ws) =
                      (Some el, snd (pollSendButton env start w))
                  \<and> trace (snd (pollSendButton env start w)) =
                      trace (last ws) @ pass_events sendButtonSelectors final)
    \<and> trace (snd (pollSendButton env start w)) = trace w @ poll_events fails final
    \<and> (if clock w - start < 30 * Second
        then length fails * (500 * Millisecond) + (clock w - start) < 30 * Second + 500 * Millisecond
           \<and> (fails \<noteq> [] \<or> final \<noteq> [])
        else fails = [] \<and> final = [])"
  using assms
proof (induction env start w rule: pollSendButton.induct)
  case (1 env start w)
  show ?case
  proof (cases "clock w - start < 30 * Second")
    case False
    then have u: "pollSendButton env start w = (None, w)"
      by (simp add: pollSendButton.simps)
    show ?thesis unfolding u using False
      by (intro exI[of _ "[w]"] exI[of _ "[]"]) simp
  next
    case True
    define r where "r = fst (trySelectors env sendButtonSelectors w)"
    define w1 where "w1 = snd (trySelectors env sendButtonSelectors w)"
    have T: "(r, w1) = trySelectors env sendButtonSelectors w"
      by (simp add: r_def w1_def)
    from trySelectors_pass[of env sendButtonSelectors w] obtain ps where
      ps: "trace w1 = trace w @ pass_events sendButtonSelectors ps"
        "case r of None \<Rightarrow> failed_pass sendButtonSelectors ps
         | Some el \<Rightarrow> found_pass sendButtonSelectors ps el"
      unfolding r_def w1_def by blast
    show ?thesis
    proof (cases r)
      case (Some el)
      then have u: "pollSendButton env start w = (Some el, w1)"
        using True T[symmetric] by (simp add: pollSendButton.simps)
      have "ps \<noteq> []" using ps(2) Some by (simp add: found_pass_def)
      then show ?thesis unfolding u using True ps Some T[symmetric]
        by (intro exI[of _ "[w]"] exI[of _ "[]"] exI[of _ ps]) simp
    next
      case None
      define v where "v = time_Sleep env (500 * Millisecond) w1"
      have u: "pollSendButton env start w = pollSendButton env start v"
        using True T[symmetric] None by (simp add: pollSendButton.simps[of env start w] v_def)
      have c1: "clock w \<le> clock w1"
        unfolding w1_def by (rule clock_trySelectors)
      have cv: "clock w + 500 * Millisecond \<le> clock v"
        using c1 by (simp add: v_def)
      have sv: "start \<le> clock v" using cv "1.prems" by simp
      have tv: "trace v = trace w @ pass_events sendButtonSelectors ps @ [Ev (Sleep (500 * Millisecond)) Done]"
        using ps(1) by (simp add: v_def)
      from "1.IH"[OF True T None sv[unfolded v_def], folded v_def] obtain ws fails final where
        len: "length ws = Suc (length fails)" and hd: "hd ws = v"
        and each: "\<forall>i<length fails.
            clock (ws ! i) - start < 30 * Second
          \<and> fst (trySelectors env sendButtonSelectors (ws ! i)) = None
          \<and> trace (snd (trySelectors env sendButtonSelectors (ws ! i))) =
              trace (ws ! i) @ pass_events sendButtonSelectors (fails ! i)
          \<and> failed_pass sendButtonSelectors (fails ! i)
          \<and> ws ! Suc i =
              time_Sleep env (500 * Millisecond) (snd (trySelectors env sendButtonSelectors (ws ! i)))"
        and res: "case fst (pollSendButton env start v) of
             None \<Rightarrow> final = [] \<and> snd (pollSendButton env start v) = last ws
                      \<and> 30 * Second \<le> clock (last ws) - start
           | Some el \<Rightarrow> found_pass sendButtonSelectors final el
                      \<and> clock (last ws) - start < 30 * Second
                      \<and> trySelectors env sendButtonSelectors (last ws) =
                          (Some el, snd (pollSendButton env start v))
                      \<and> trace (snd (pollSendButton env start v)) =
                          trace (last ws) @ pass_events sendButtonSelectors final"
        and tr: "trace (snd (pollSendButton env start v)) = trace v @ poll_events fails final"
        and bnd: "if clock v - start < 30 * Second
           then length fails * (500 * Millisecond) + (clock v - start) < 30 * Second + 500 * Millisecond
              \<and> (fails \<noteq> [] \<or> final \<noteq> [])
           else fails = [] \<and> final = []"
        by blast
      from len have ne: "ws \<noteq> []" by auto
      with hd have ws0: "ws ! 0 = v" by (simp add: hd_conv_nth)
      have fp: "failed_pass sendButtonSelectors ps" using ps(2) None by simp
      have bound: "length (ps # fails) * (500 * Millisecond) + (clock w - start)
          < 30 * Second + 500 * Millisecond"
      proof (cases "clock v - start < 30 * Second")
        case True
        with bnd have "length fails * (500 * Millisecond) + (clock v - start)
            < 30 * Second + 500 * Millisecond" by simp
        moreover have "500 * Millisecond + (clock w - start) \<le> clock v - start"
          using cv "1.prems" by simp
        ultimately show ?thesis by simp
      next
        case False
        with bnd have "fails = []" by simp
        then show ?thesis using \<open>clock w - start < 30 * Second\<close> by simp
      qed
      have each': "\<forall>i<length (ps # fails).
            clock ((w # ws) ! i) - start < 30 * Second
          \<and> fst (trySelectors env sendButtonSelectors ((w # ws) ! i)) = None
          \<and> trace (snd (trySelectors env sendButtonSelectors ((w # ws) ! i))) =
              trace ((w # ws) ! i) @ pass_events sendButtonSelectors ((ps # fails) ! i)
          \<and> failed_pass sendButtonSelectors ((ps # fails) ! i)
          \<and> (w # ws) ! Suc i =
              time_Sleep env (500 * Millisecond)
                (snd (trySelectors env sendButtonSelectors ((w # ws) ! i)))"
      proof (intro allI impI)
        fix i assume i: "i < length (ps # fails)"
        show "clock ((w # ws) ! i) - start < 30 * Second
          \<and> fst (trySelectors env sendButtonSelectors ((w # ws) ! i)) = None
          \<and> trace (snd (trySelectors env sendButtonSelectors ((w # ws) ! i))) =
              trace ((w # ws) ! i) @ pass_events sendButtonSelectors ((ps # fails) ! i)
          \<and> failed_pass sendButtonSelectors ((ps # fails) ! i)
          \<and> (w # ws) ! Suc i =
              time_Sleep env (500 * Millisecond)
                (snd (trySelectors env sendButtonSelectors ((w # ws) ! i)))"
        proof (cases i)
          case 0
          with True None fp ps(1) ws0 show ?thesis
            by (simp add: r_def[symmetric] w1_def[symmetric] v_def)
        next
          case (Suc j)
          with i have "j < length fails" by simp
          with each Suc show ?thesis by simp
        qed
      qed
      have res': "case fst (pollSendButton env start v) of
             None \<Rightarrow> final = [] \<and> snd (pollSendButton env start v) = last (w # ws)
                      \<and> 30 * Second \<le> clock (last (w # ws)) - start
           | Some el \<Rightarrow> found_pass sendButtonSelectors final el
                      \<and> clock (last (w # ws)) - start < 30 * Second
                      \<and> trySelectors env sendButtonSelectors (last (w # ws)) =
                          (Some el, snd (pollSendButton env start v))
                      \<and> trace (snd (pollSendButton env start v)) =
                          trace (last (w # ws)) @ pass_events sendButtonSelectors final"
        unfolding last_ConsR[OF ne] using res .
      have tr': "trace (snd (pollSendButton env start v)) = trace w @ poll_events (ps # fails) final"
        using tr tv by simp
      have len': "length (w # ws) = Suc (length (ps # fails))" "hd (w # ws) = w"
        using len by simp_all
      have bnd': "if clock w - start < 30 * Second
           then length (ps # fails) * (500 * Millisecond) + (clock w - start)
                  < 30 * Second + 500 * Millisecond
              \<and> (ps # fails \<noteq> [] \<or> final \<noteq> [])
           else ps # fails = [] \<and> final = []"
        using bound True by simp
      show ?thesis unfolding u
        using len' each' res' tr' bnd'
        by (intro exI[of _ "w # ws"] exI[of _ "ps # fails"] exI[of _ final] conjI)
    qed
  qed
qed

lemma page_calls_simps [simp]:
  "page_calls [] = []"
  "page_calls (xs @ ys) = page_calls xs @ page_calls ys"
  "page_calls (Ev c r # tr) =
     (if kind_of c \<in> {KFindElement, KIsDisplayed, KIsEnabled, KSendKeys, KClick}
      then Ev c r # page_calls tr else page_calls tr)"
  by (simp_all add: page_calls_def)

lemma page_calls_logMessage [simp]:
  "page_calls (trace (logMessage env lf fmt ops w)) = page_calls (trace w)"
  unfolding page_calls_def
  by (rule only_unaffected[OF extends_logMessage[OF extends_refl subset_refl]])
     (simp add: logging_def)

lemma sendWithoutButton_page:
  "(\<exists>e. page_calls (trace (snd (sendWithoutButton env lf number w))) =
          page_calls (trace w) @ [Ev (FindElement ByCSSSelector messageBoxSelector) (Failed e)]
        \<and> fst (sendWithoutButton env lf number w) = SkippedWithoutButton)
   \<or> (\<exists>box. page_calls (trace (snd (sendWithoutButton env lf number w))) =
          page_calls (trace w) @
            [Ev (FindElement ByCSSSelector messageBoxSelector) (Element box),
             Ev (IsDisplayed box) (Flag False)]
        \<and> fst (sendWithoutButton env lf number w) = SkippedWithoutButton)
   \<or> (\<exists>box e. page_calls (trace (snd (sendWithoutButton env lf number w))) =
          page_calls (trace w) @
            [Ev (FindElement ByCSSSelector messageBoxSelector) (Element box),
             Ev (IsDisplayed box) (Flag True),
             Ev (SendKeys box EnterKey) (Failed e)]
        \<and> fst (sendWithoutButton env lf number w) = SkippedWithoutButton)
   \<or> (\<exists>box. page_calls (trace (snd (sendWithoutButton env lf number w))) =
          page_calls (trace w) @
            [Ev (FindElement ByCSSSelector messageBoxSelector) (Element box),
             Ev (IsDisplayed box) (Flag True),
             Ev (SendKeys box EnterKey) Done]
        \<and> fst (sendWithoutButton env lf number w) = EnterWithoutButton)"
  by (simp add: sendWithoutButton_def skipUnsent_def phase_simps split: phase_splits)

lemma clickSendButton_page:
  "\<exists>rp rest. page_calls (trace (snd (clickSendButton env lf number el w))) =
     page_calls (trace w) @ Ev (Click el) rp # rest"
  by (simp add: clickSendButton_def skipPersistent_def phase_simps split: phase_splits)

subsection \<open>Log lines\<close>

lemma logMessage_since:
  "\<exists>es e. trace (logMessage env (Some lf) fmt ops w) = trace w @ es @ [e]
     \<and> within logging (es @ [e])"
  by (cases "reply_error env (Suc (Suc (calls w)))
        (WriteString lf (reply_text env (Suc (calls w)) (NowFormat ''[2006-01-02 15:04:05] '') @ Sprintf fmt ops))")
     (simp_all add: logMessage_def logging_def phase_simps)

lemma trace_logMessage:
  "trace (logMessage env (Some lf) fmt ops w) = trace w @ log_events env lf fmt ops w"
  using logMessage_since[of env lf fmt ops w] by (auto simp: log_events_def)


lemma log_events_quiet:
  "logging \<inter> K = {} \<Longrightarrow> only K (log_events env lf fmt ops w) = []"
  using only_quiet(1)[of K env "Some lf" fmt ops w] by (simp add: trace_logMessage)

subsection \<open>Runs in which nothing fails\<close>

lemma smooth_simps [simp]:
  "smooth []"
  "smooth (Ev c r # es) \<longleftrightarrow> (case r of Failed x \<Rightarrow> False | Flag f \<Rightarrow> f | _ \<Rightarrow> True) \<and> smooth es"
  "smooth (xs @ ys) \<longleftrightarrow> smooth xs \<and> smooth ys"
  by (simp_all add: smooth_def reply_of_def)

lemma probe_not_smooth: "\<not> accepted p \<Longrightarrow> \<not> smooth (probe_events selector p @ es)"
  by (cases p) auto

lemma failed_pass_not_smooth:
  assumes "failed_pass sels ps" and "sels \<noteq> []"
  shows "\<not> smooth (pass_events sels ps @ es)"
proof -
  from assms obtain s r p q where sels: "sels = s # r" and ps: "ps = p # q"
    by (cases sels; cases ps) (auto simp: failed_pass_def)
  from assms(1) ps have "\<not> accepted p" by (simp add: failed_pass_def)
  from probe_not_smooth[OF this, of s "pass_events r q @ es"] show ?thesis
    by (simp add: sels ps)
qed

lemma pollSendButton_smooth:
  assumes "trace (snd (pollSendButton env (clock w) w)) = trace w @ es" and "smooth es"
  shows "fst (pollSendButton env (clock w) w) \<noteq> None"
proof
  assume none: "fst (pollSendButton env (clock w) w) = None"
  have window: "clock w - clock w < 30 * Second"
    by (simp add: Second_def Millisecond_def)
  from pollSendButton_passes[of "clock w" w env, OF order_refl] obtain ws fails final where
    each: "\<forall>i<length fails.
          clock (ws ! i) - clock w < 30 * Second
        \<and> fst (trySelectors env sendButtonSelectors (ws ! i)) = None
        \<and> trace (snd (trySelectors env sendButtonSelectors (ws ! i))) =
            trace (ws ! i) @ pass_events sendButtonSelectors (fails ! i)
        \<and> failed_pass sendButtonSelectors (fails ! i)
        \<and> ws ! Suc i =
            time_Sleep env (500 * Millisecond) (snd (trySelectors env sendButtonSelectors (ws ! i)))"
    and res: "case fst (pollSendButton env (clock w) w) of
         None \<Rightarrow> final = [] \<and> snd (pollSendButton env (clock w) w) = last ws
                  \<and> 30 * Second \<le> clock (last ws) - clock w
       | Some el \<Rightarrow> found_pass sendButtonSelectors final el
                  \<and> clock (last ws) - clock w < 30 * Second
                  \<and> trySelectors env sendButtonSelectors (last ws) =
                      (Some el, snd (pollSendButton env (clock w) w))
                  \<and> trace (snd (pollSendButton env (clock w) w)) =
                      trace (last ws) @ pass_events sendButtonSelectors final"
    and tr: "trace (snd (pollSendButton env (clock w) w)) = trace w @ poll_events fails final"
    and bnd': "length fails * (500 * Millisecond) + (clock w - clock w) < 30 * Second + 500 * Millisecond
           \<and> (fails \<noteq> [] \<or> final \<noteq> [])"
    unfolding if_P[OF window] by (elim exE conjE) (rule that, assumption+, simp)
  from bnd' have bnd: "fails \<noteq> [] \<or> final \<noteq> []" by simp
  from res none have fin: "final = []" by simp
  with bnd obtain ps rest where fails: "fails = ps # rest" by (cases fails) auto
  with each have "failed_pass sendButtonSelectors ps" by fastforce
  moreover have "sendButtonSelectors \<noteq> []" by (simp add: sendButtonSelectors_def)
  ultimately have "\<not> smooth (pass_events sendButtonSelectors ps @
      Ev (Sleep (500 * Millisecond)) Done # poll_events rest final)"
    by (rule failed_pass_not_smooth)
  with tr assms fails fin show False by simp
qed

lemma clickSendButton_smooth:
  "fst (clickSendButton env lf number el w) = Clicked
   \<or> \<not> smooth (drop (length (trace w)) (trace (snd (clickSendButton env lf number el w))))"
  by (simp add: clickSendButton_def skipPersistent_def phase_simps trace_logMessage
      split: phase_splits)

lemma processNumber_smooth:
  assumes "number \<noteq> []"
    and "smooth (drop (length (trace w)) (trace (snd (processNumber env lf enc number w))))"
  shows "fst (processNumber env lf enc number w) = Clicked"
proof -
  define url where "url = sendURL enc number"
  define g where "g = fst (wd_Get env url w)"
  define w1 where "w1 = snd (wd_Get env url w)"
  define p where "p = fst (pollSendButton env (clock w1) w1)"
  define w2 where "w2 = snd (pollSendButton env (clock w1) w1)"
  have t1: "trace w1 = trace w @ [Ev (Get url) (case g of None \<Rightarrow> Done | Some e \<Rightarrow> Failed e)]"
    by (simp add: w1_def g_def phase_simps)
  obtain ep where t2: "trace w2 = trace w1 @ ep"
    using extends_pollSendButton[OF extends_refl subset_refl, of w1 env "clock w1"]
    by (auto simp: w2_def extends_iff)
  show ?thesis
  proof (cases g)
    case (Some e)
    with assms show ?thesis
      by (simp add: processNumber_def sendURL_def[symmetric] url_def[symmetric] g_def[symmetric]
            w1_def[symmetric] Let_def split_beta trace_logMessage t1)
  next
    case None
    show ?thesis
    proof (cases p)
      case pn: None
      obtain et where t3: "trace (snd (sendWithoutButton env lf number w2)) = trace w2 @ et"
        using extends_sendWithoutButton[OF extends_refl subset_refl, of w2 env lf number]
        by (auto simp: extends_iff)
      have "snd (processNumber env lf enc number w) = snd (sendWithoutButton env lf number w2)"
        using assms(1) None pn
        by (simp add: processNumber_def sendURL_def[symmetric] url_def[symmetric] g_def[symmetric]
              w1_def[symmetric] p_def[symmetric] w2_def[symmetric] Let_def split_beta)
      with assms(2) t1 t2 t3 have "smooth ep" by simp
      from pollSendButton_smooth[OF t2[unfolded w2_def] this] pn show ?thesis
        by (simp add: p_def)
    next
      case (Some el)
      have eq: "processNumber env lf enc number w = clickSendButton env lf number el w2"
        using assms(1) None Some
        by (simp add: processNumber_def sendURL_def[symmetric] url_def[symmetric] g_def[symmetric]
              w1_def[symmetric] p_def[symmetric] w2_def[symmetric] Let_def split_beta)
      obtain et where t3: "trace (snd (clickSendButton env lf number el w2)) = trace w2 @ et"
        using extends_clickSendButton[OF extends_refl subset_refl, of w2 env lf number el]
        by (auto simp: extends_iff)
      from assms(2) t1 t2 t3 have "smooth et" by (simp add: eq)
      with clickSendButton_smooth[of env lf number el w2] t3 show ?thesis
        by (simp add: eq)
    qed
  qed
qed

lemma sendMessages_smooth:
  assumes "smooth (drop (length (trace w)) (trace (snd (sendMessages env lf enc numbers w))))"
  shows "fst (sendMessages env lf enc numbers w) =
           map (\<lambda>n. if n = [] then EmptyLine else Clicked) numbers"
  using assms
proof (induction numbers arbitrary: w)
  case Nil
  show ?case by simp
next
  case (Cons number numbers)
  define w1 where "w1 = snd (processNumber env lf enc number w)"
  obtain e1 where t1: "trace w1 = trace w @ e1"
    using extends_processNumber[OF extends_refl subset_refl, of w env lf enc number]
    by (auto simp: w1_def extends_iff)
  obtain e2 where t2: "trace (snd (sendMessages env lf enc numbers w1)) = trace w1 @ e2"
    using extends_sendMessages[OF extends_refl subset_refl, of w1 env lf enc numbers]
    by (auto simp: extends_iff)
  have unfold: "sendMessages env lf enc (number # numbers) w =
      (fst (processNumber env lf enc number w) # fst (sendMessages env lf enc numbers w1),
       snd (sendMessages env lf enc numbers w1))"
    by (simp add: w1_def split_beta)
  from Cons.prems have s: "smooth e1" "smooth e2"
    unfolding unfold by (simp_all add: t1 t2)
  from s(2) t2 have "smooth (drop (length (trace w1)) (trace (snd (sendMessages env lf enc numbers w1))))"
    by simp
  from Cons.IH[OF this] have rest: "fst (sendMessages env lf enc numbers w1) =
      map (\<lambda>n. if n = [] then EmptyLine else Clicked) numbers" .
  have first: "fst (processNumber env lf enc number w) = (if number = [] then EmptyLine else Clicked)"
  proof (cases "number = []")
    case True
    then show ?thesis by (simp add: processNumber_def)
  next
    case False
    from s(1) t1 have "smooth (drop (length (trace w)) (trace (snd (processNumber env lf enc number w))))"
      by (simp add: w1_def)
    from processNumber_smooth[OF False this] False show ?thesis by simp
  qed
  show ?case unfolding unfold using first rest by simp
qed


subsection \<open>A run that reaches the end of \<open>main\<close>\<close>

lemma readLines_result:
  "fst (readLines env path w) =
     (case reply_error env (calls w) (Open path) of
        Some e \<Rightarrow> ([], Some e)
      | None \<Rightarrow> (map TrimSpace (fst (fst (scanner_Scan env path (snd (os_Open env path w))))),
                 snd (fst (scanner_Scan env path (snd (os_Open env path w))))))"
  by (simp add: readLines_def os_Open_def attempt_fst_snd split_beta split: option.split)

lemma inputs_readNumbers:
  assumes "readNumbers env lf w = (Inr numbers, w1)"
  shows "\<exists>bytes. only {KScan, KReadFile} (trace w1) =
            only {KScan, KReadFile} (trace w) @ [Ev (Scan numbersFilePath) (Text bytes)]
          \<and> numbers = numbers_of bytes \<and> numbers \<noteq> []"
  using assms
  by (auto simp: readNumbers_def readLines_def numbers_of_def phase_simps
      split: option.splits sum.splits if_splits)

lemma inputs_readMessage:
  assumes "readMessage env lf w = (Inr enc, w1)"
  shows "\<exists>msg. only {KScan, KReadFile} (trace w1) =
            only {KScan, KReadFile} (trace w) @ [Ev (ReadFile messageFilePath) (Text msg)]
          \<and> enc = QueryEscape (TrimSpace msg) \<and> TrimSpace msg \<noteq> []"
  using assms
  by (auto simp: readMessage_def phase_simps split: option.splits sum.splits if_splits)

lemma branch_sendWithoutButton:
  "fst (sendWithoutButton env lf number w) \<noteq> EmptyLine"
  by (simp add: sendWithoutButton_def skipUnsent_def split_beta split: phase_splits)

lemma branch_clickSendButton:
  "fst (clickSendButton env lf number b w) \<noteq> EmptyLine"
  by (simp add: clickSendButton_def skipPersistent_def split_beta split: phase_splits)

lemma branch_processNumber:
  "fst (processNumber env lf enc number w) = EmptyLine \<longleftrightarrow> number = []"
  by (simp add: processNumber_def Let_def split_beta branch_sendWithoutButton branch_clickSendButton
        split: phase_splits)

lemma empty_branches:
  "map (\<lambda>b. b = EmptyLine) (fst (sendMessages env lf enc numbers w)) = map (\<lambda>n. n = []) numbers"
  by (induction numbers arbitrary: w) (simp_all add: split_beta branch_processNumber)

lemma length_sendMessages:
  "length (fst (sendMessages env lf enc numbers w)) = length numbers"
  by (induction numbers arbitrary: w) (simp_all add: split_beta)

lemma main_returned:
  assumes "main env w0 = ((Returned, bs), w')" and "trace w0 = []"
  shows "\<exists>bytes msg.
           only {KScan, KReadFile} (trace w') =
             [Ev (Scan numbersFilePath) (Text bytes), Ev (ReadFile messageFilePath) (Text msg)]
         \<and> numbers_of bytes \<noteq> [] \<and> TrimSpace msg \<noteq> []
         \<and> length bs = length (numbers_of bytes)
         \<and> map (\<lambda>b. b = EmptyLine) bs = map (\<lambda>n. n = []) (numbers_of bytes)
         \<and> navigations (trace w') =
             whatsAppURL # map (sendURL (QueryEscape (TrimSpace msg)))
                             (filter (\<lambda>n. n \<noteq> []) (numbers_of bytes))
         \<and> (\<exists>segs. steps (trace w') = startup_steps @ concat segs
                \<and> list_all2 (\<lambda>(number, b) seg.
                       iteration_shape (sendURL (QueryEscape (TrimSpace msg)) number) b seg)
                     (zip (numbers_of bytes) bs) segs)
         \<and> (smooth (trace w') \<longrightarrow>
               bs = map (\<lambda>n. if n = [] then EmptyLine else Clicked) (numbers_of bytes))"
  using assms(1)
proof (cases rule: main_cases)
  case (Done lf w1 u w2 chromeArgs w3 u' w4 u'' w5 numbers w6 enc w7 bs' w8)
  let ?v = "logMessage env (Some lf) ''Application started.\<newline>'' [] w1"
  let ?I = "{KScan, KReadFile}"
  have w: "w1 = snd (setupLogFile env w0)" "w2 = snd (startService env lf ?v)"
    "w3 = snd (setupCapabilities env lf w2)" "w4 = snd (connectWebDriver env lf chromeArgs w3)"
    "w5 = snd (loginWhatsApp env lf w4)" "w6 = snd (readNumbers env lf w5)"
    "w7 = snd (readMessage env lf w6)" "w8 = snd (sendMessages env lf enc numbers w7)"
    "bs' = fst (sendMessages env lf enc numbers w7)"
    using Done by simp_all
  \<comment> \<open>what was read\<close>
  have i5: "only ?I (trace w5) = []"
    using assms(2) by (simp add: w only_quiet logging_def)
  from inputs_readNumbers[OF Done(6)] i5 obtain bytes where
    i6: "only ?I (trace w6) = [Ev (Scan numbersFilePath) (Text bytes)]"
    and numbers: "numbers = numbers_of bytes" "numbers \<noteq> []"
    by auto
  from inputs_readMessage[OF Done(7)] i6 obtain msg where
    i7: "only ?I (trace w7) =
           [Ev (Scan numbersFilePath) (Text bytes), Ev (ReadFile messageFilePath) (Text msg)]"
    and enc: "enc = QueryEscape (TrimSpace msg)" "TrimSpace msg \<noteq> []"
    by auto
  have i: "only ?I (trace w') = only ?I (trace w7)"
    by (simp add: Done(10) w(8) only_quiet logging_def sending_def polling_def)
  \<comment> \<open>where the browser went\<close>
  have n7: "navigations (trace w7) = [whatsAppURL]"
    using assms(2) by (simp add: w navigations_quiet navigations_loginWhatsApp)
  have n: "navigations (trace w') = whatsAppURL # map (sendURL enc) (filter (\<lambda>n. n \<noteq> []) numbers)"
    by (simp add: Done(10) w(8) navigations_quiet navigations_sendMessages n7)
  \<comment> \<open>the steps\<close>
  have s7: "steps (trace w7) = butlast startup_steps @ [ReadInput messageFilePath]"
    using assms(2) loginWhatsApp_Inr[OF Done(5)]
    by (simp add: w steps_setupLogFile steps_startService steps_setupCapabilities
          steps_connectWebDriver steps_loginWhatsApp steps_readNumbers steps_readMessage
          startup_steps_def startup_distinct)
  from steps_sendMessages[OF s7, of env lf enc numbers] obtain segs where
    "steps (trace w8) = butlast startup_steps @ ReadInput messageFilePath # concat segs"
    and sh: "list_all2 (\<lambda>(number, b) seg. iteration_shape (sendURL enc number) b seg)
               (zip numbers bs') segs"
    by (auto simp: w(8,9))
  then have s: "steps (trace w') = startup_steps @ concat segs"
    by (simp add: Done(10) steps_finish startup_steps_def)
  have l: "length bs' = length numbers"
    by (simp add: w(9) length_sendMessages)
  have b: "map (\<lambda>b. b = EmptyLine) bs' = map (\<lambda>n. n = []) numbers"
    by (simp add: w(9) empty_branches)
  \<comment> \<open>when nothing fails\<close>
  obtain loop where t8: "trace w8 = trace w7 @ loop"
    using extends_sendMessages[OF extends_refl subset_refl, of w7 env lf enc numbers]
    by (auto simp: w(8) extends_iff)
  obtain post where t9: "trace w' = trace w8 @ post"
    using extends_finish[OF extends_refl subset_refl, of w8 env lf]
    by (auto simp: Done(10) extends_iff)
  have sm: "bs' = map (\<lambda>n. if n = [] then EmptyLine else Clicked) numbers" if "smooth (trace w')"
  proof -
    from that t8 t9 have "smooth loop" by simp
    with t8 have "smooth (drop (length (trace w7)) (trace (snd (sendMessages env lf enc numbers w7))))"
      by (simp add: w(8))
    from sendMessages_smooth[OF this] show ?thesis by (simp add: w(9))
  qed
  from i i7 numbers enc n s sh l b sm Done(9) show ?thesis
    by auto
qed simp_all

lemma processNumber_empty: "processNumber env lf enc [] w = (EmptyLine, w)"
  by (simp add: processNumber_def)

lemma sendMessages_filter:
  "snd (sendMessages env lf enc numbers w) =
     snd (sendMessages env lf enc (filter (\<lambda>n. n \<noteq> []) numbers) w)"
  by (induction numbers arbitrary: w) (simp_all add: split_beta processNumber_empty)

lemma readLines_lines:
  assumes "reply_error env (calls w) (Open path) = None"
  shows "fst (fst (readLines env path w)) =
           map TrimSpace (fst (ScanLines [] (reply_text env (Suc (calls w)) (Scan path))))"
  using assms
  by (simp add: readLines_def phase_simps split: option.split)

subsection \<open>Runs that end early\<close>

lemma console_simps [simp]:
  "console [] = []"
  "console (Ev c r # tr) = (case printed c of None \<Rightarrow> console tr | Some m \<Rightarrow> m # console tr)"
  "console (xs @ ys) = console xs @ console ys"
  by (simp_all add: console_def List.map_filter_def call_of_def split: option.splits)

lemma console_logMessage:
  "console (trace (logMessage env (Some lf) fmt ops w)) = console (trace w) @ [Sprintf fmt ops]"
  by (simp add: logMessage_def phase_simps split: phase_splits)

lemma in_only: "e \<in> set tr \<Longrightarrow> kind_of (call_of e) \<in> K \<Longrightarrow> e \<in> set (only K tr)"
  by (simp add: only_def)

lemma readNumbers_reads:
  "only {KScan, KReadFile} (trace (snd (readNumbers env lf w))) =
     only {KScan, KReadFile} (trace w) @
       (case reply_error env (calls w) (Open numbersFilePath) of
          Some e \<Rightarrow> []
        | None \<Rightarrow>
            [Ev (Scan numbersFilePath)
               (case reply_error env (Suc (calls w)) (Scan numbersFilePath) of
                  None \<Rightarrow> Text (reply_text env (Suc (calls w)) (Scan numbersFilePath))
                | Some e \<Rightarrow> Truncated (reply_text env (Suc (calls w)) (Scan numbersFilePath)) e)])"
  by (simp add: readNumbers_def readLines_def only_quiet logging_def phase_simps split: phase_splits)

lemma readNumbers_zero:
  assumes "reply_error env (calls w) (Open numbersFilePath) = None"
    and "reply_error env (Suc (calls w)) (Scan numbersFilePath) = None"
    and "numbers_of (reply_text env (Suc (calls w)) (Scan numbersFilePath)) = []"
  shows "fst (readNumbers env lf w) = Inl 1"
    and "last (trace (snd (readNumbers env lf w))) = Ev (Exit 1) Done"
    and "last (console (trace (snd (readNumbers env lf w)))) =
      (case snd (ScanLines [] (reply_text env (Suc (calls w)) (Scan numbersFilePath))) of
         None \<Rightarrow> Sprintf ''No numbers found in '%s'. Please add phone numbers to the file.\<newline>''
                   [numbersFilePath]
       | Some e \<Rightarrow> Sprintf ''Error reading numbers from '%s': %v\<newline>'' [numbersFilePath, e])"
  using assms
  by (simp_all add: readNumbers_def readLines_def numbers_of_def console_logMessage phase_simps
        split: phase_splits)

lemma readMessage_reads:
  "only {KScan, KReadFile} (trace (snd (readMessage env lf w))) =
     only {KScan, KReadFile} (trace w) @
       [Ev (ReadFile messageFilePath)
          (case reply_error env (calls w) (ReadFile messageFilePath) of
             None \<Rightarrow> Text (reply_text env (calls w) (ReadFile messageFilePath))
           | Some e \<Rightarrow> Failed e)]"
  by (simp add: readMessage_def only_quiet logging_def phase_simps split: phase_splits)

lemma readMessage_empty:
  assumes "reply_error env (calls w) (ReadFile messageFilePath) = None"
    and "TrimSpace (reply_text env (calls w) (ReadFile messageFilePath)) = []"
  shows "fst (readMessage env lf w) = Inl 1"
    and "last (trace (snd (readMessage env lf w))) = Ev (Exit 1) Done"
    and "last (console (trace (snd (readMessage env lf w)))) =
      Sprintf ''Message in '%s' is empty. Please write a message to send.\<newline>'' [messageFilePath]"
  using assms
  by (simp_all add: readMessage_def console_logMessage phase_simps split: phase_splits)

lemma starting_subsets:
  "{KStat, KMkdirAll, KNowFormat, KOpenFile, KStdout} \<subseteq> starting"
  "{KStderr, KExit} \<subseteq> starting"
  "logging \<subseteq> starting"
  "insert KNewChromeDriverService (insert KExit logging) \<subseteq> starting"
  "{KAbs, KStat, KMkdirAll, KExit} \<union> logging \<subseteq> starting"
  "{KNewRemote, KExit} \<union> logging \<subseteq> starting"
  "{KGet, KFindElement, KSleep, KExit} \<union> logging \<subseteq> starting"
  by (simp_all add: starting_def logging_def)

lemma startup_extends:
  assumes "setupLogFile env w0 = (r1, w1)"
  shows "extends starting w0 w1"
    and "extends starting w0 (log_Fatalf env m w1)"
    and "startService env lf (logMessage env olf fmt ops w1) = (r2, w2) \<Longrightarrow> extends starting w0 w2"
    and "startService env lf (logMessage env olf fmt ops w1) = (r2, w2) \<Longrightarrow>
         setupCapabilities env lf w2 = (r3, w3) \<Longrightarrow> extends starting w0 w3"
    and "startService env lf (logMessage env olf fmt ops w1) = (r2, w2) \<Longrightarrow>
         setupCapabilities env lf w2 = (r3, w3) \<Longrightarrow>
         connectWebDriver env lf cargs w3 = (r4, w4) \<Longrightarrow> extends starting w0 w4"
    and "startService env lf (logMessage env olf fmt ops w1) = (r2, w2) \<Longrightarrow>
         setupCapabilities env lf w2 = (r3, w3) \<Longrightarrow>
         connectWebDriver env lf cargs w3 = (r4, w4) \<Longrightarrow>
         loginWhatsApp env lf w4 = (r5, w5) \<Longrightarrow> extends starting w0 w5"
proof -
  have w1: "w1 = snd (setupLogFile env w0)" using assms by simp
  show e1: "extends starting w0 w1"
    unfolding w1 by (rule extends_setupLogFile[OF extends_refl starting_subsets(1)])
  show "extends starting w0 (log_Fatalf env m w1)"
    by (rule extends_log_Fatalf[OF e1 starting_subsets(2)])
  have e1': "extends starting w0 (logMessage env olf fmt ops w1)"
    by (rule extends_logMessage[OF e1 starting_subsets(3)])
  have e2: "extends starting w0 w2"
    if "startService env lf (logMessage env olf fmt ops w1) = (r2, w2)" for r2 w2
    using extends_startService[OF e1' starting_subsets(4), of env lf] that by simp
  then show "startService env lf (logMessage env olf fmt ops w1) = (r2, w2) \<Longrightarrow> extends starting w0 w2" .
  have e3: "extends starting w0 w3"
    if "startService env lf (logMessage env olf fmt ops w1) = (r2, w2)"
      "setupCapabilities env lf w2 = (r3, w3)" for r2 w2 r3 w3
    using extends_setupCapabilities[OF e2[OF that(1)] starting_subsets(5), of env lf] that(2) by simp
  then show "startService env lf (logMessage env olf fmt ops w1) = (r2, w2) \<Longrightarrow>
         setupCapabilities env lf w2 = (r3, w3) \<Longrightarrow> extends starting w0 w3" .
  have e4: "extends starting w0 w4"
    if "startService env lf (logMessage env olf fmt ops w1) = (r2, w2)"
      "setupCapabilities env lf w2 = (r3, w3)" "connectWebDriver env lf cargs w3 = (r4, w4)"
    for r2 w2 r3 w3 r4 w4
    using extends_connectWebDriver[OF e3[OF that(1,2)] starting_subsets(6), of env lf cargs] that(3)
    by simp
  then show "startService env lf (logMessage env olf fmt ops w1) = (r2, w2) \<Longrightarrow>
         setupCapabilities env lf w2 = (r3, w3) \<Longrightarrow>
         connectWebDriver env lf cargs w3 = (r4, w4) \<Longrightarrow> extends starting w0 w4" .
  show "startService env lf (logMessage env olf fmt ops w1) = (r2, w2) \<Longrightarrow>
         setupCapabilities env lf w2 = (r3, w3) \<Longrightarrow>
         connectWebDriver env lf cargs w3 = (r4, w4) \<Longrightarrow>
         loginWhatsApp env lf w4 = (r5, w5) \<Longrightarrow> extends starting w0 w5"
  proof -
    assume a: "startService env lf (logMessage env olf fmt ops w1) = (r2, w2)"
      "setupCapabilities env lf w2 = (r3, w3)" "connectWebDriver env lf cargs w3 = (r4, w4)"
      and b: "loginWhatsApp env lf w4 = (r5, w5)"
    have "extends starting w0 (snd (loginWhatsApp env lf w4))"
      by (rule extends_loginWhatsApp[OF e4[OF a] starting_subsets(7)])
    with b show "extends starting w0 w5" by simp
  qed
qed

lemma startup_navigations:
  assumes "setupLogFile env w0 = (r1, w1)"
    and "startService env lf (logMessage env olf fmt ops w1) = (r2, w2)"
    and "setupCapabilities env lf w2 = (r3, w3)"
    and "connectWebDriver env lf cargs w3 = (r4, w4)"
    and "loginWhatsApp env lf w4 = (r5, w5)"
  shows "navigations (trace w5) = navigations (trace w0) @ [whatsAppURL]"
proof -
  have "w1 = snd (setupLogFile env w0)" "w2 = snd (startService env lf (logMessage env olf fmt ops w1))"
    "w3 = snd (setupCapabilities env lf w2)" "w4 = snd (connectWebDriver env lf cargs w3)"
    "w5 = snd (loginWhatsApp env lf w4)"
    using assms by simp_all
  then show ?thesis
    by (simp add: navigations_quiet navigations_loginWhatsApp)
qed

lemma no_reads_early:
  assumes "extends starting w0 w'" and "trace w0 = []" and "e \<in> set (trace w')"
    and "kind_of (call_of e) \<in> {KOpen, KScan, KReadFile}"
  shows False
proof -
  have "only {KOpen, KScan, KReadFile} (trace w') = only {KOpen, KScan, KReadFile} (trace w0)"
    by (rule only_unaffected[OF assms(1)]) (simp add: starting_def)
  with assms(2) have "only {KOpen, KScan, KReadFile} (trace w') = []" by simp
  moreover from assms(3,4) have "e \<in> set (only {KOpen, KScan, KReadFile} (trace w'))"
    by (rule in_only)
  ultimately show False by simp
qed

lemma only_subset:
  "K \<subseteq> K' \<Longrightarrow> only K' tr = [] \<Longrightarrow> only K tr = []"
  by (auto simp: only_def filter_empty_conv)

lemma reads_at_loop_start:
  assumes "trace w0 = []" and "setupLogFile env w0 = (r1, w1)"
    and "startService env lf (logMessage env olf fmt ops w1) = (r2, w2)"
    and "setupCapabilities env lf w2 = (r3, w3)"
    and "connectWebDriver env lf cargs w3 = (r4, w4)"
    and "loginWhatsApp env lf w4 = (r5, w5)"
  shows "only {KScan, KReadFile} (trace w5) = []" and "navigations (trace w5) = [whatsAppURL]"
    and "only {KOpen, KScan, KReadFile} (trace w5) = []"
proof -
  have e: "extends starting w0 w5"
    by (rule startup_extends(6)[OF assms(2-6)])
  have "only {KOpen, KScan, KReadFile} (trace w5) = only {KOpen, KScan, KReadFile} (trace w0)"
    by (rule only_unaffected[OF e]) (simp add: starting_def)
  with assms(1) show r: "only {KOpen, KScan, KReadFile} (trace w5) = []" by simp
  then show "only {KScan, KReadFile} (trace w5) = []"
    by (rule only_subset[rotated]) simp
  from startup_navigations[OF assms(2-6)] assms(1)
  show "navigations (trace w5) = [whatsAppURL]" by simp
qed

lemma zero_numbers_exit:
  assumes run: "main env w0 = ((out, bs), w')" and w0: "trace w0 = []"
    and ev: "Ev (Scan numbersFilePath) (Text bytes) \<in> set (trace w')"
    and zero: "numbers_of bytes = []"
  shows "out = Exited 1 \<and> last (trace w') = Ev (Exit 1) Done
       \<and> navigations (trace w') = [whatsAppURL]
       \<and> last (console (trace w')) =
           (case snd (ScanLines [] bytes) of
              None \<Rightarrow> Sprintf ''No numbers found in '%s'. Please add phone numbers to the file.\<newline>''
                        [numbersFilePath]
            | Some e \<Rightarrow> Sprintf ''Error reading numbers from '%s': %v\<newline>'' [numbersFilePath, e])"
  using run
proof (cases rule: main_cases)
  case (LogSetup e w1)
  from no_reads_early[OF _ w0 ev] startup_extends(2)[OF LogSetup(1)] LogSetup(3)
  show ?thesis by (simp add: call_of_def)
next
  case (Service lf w1 code w2)
  from no_reads_early[OF _ w0 ev] startup_extends(3)[OF Service(1,2)] Service(4)
  show ?thesis by (simp add: call_of_def)
next
  case (Capabilities lf w1 u w2 code w3)
  from no_reads_early[OF _ w0 ev] startup_extends(4)[OF Capabilities(1,2,3)] Capabilities(5)
  show ?thesis by (simp add: call_of_def)
next
  case (Connect lf w1 u w2 chromeArgs w3 code w4)
  from no_reads_early[OF _ w0 ev] startup_extends(5)[OF Connect(1,2,3,4)] Connect(6)
  show ?thesis by (simp add: call_of_def)
next
  case (Login lf w1 u w2 chromeArgs w3 u' w4 code w5)
  from no_reads_early[OF _ w0 ev] startup_extends(6)[OF Login(1,2,3,4,5)] Login(7)
  show ?thesis by (simp add: call_of_def)
next
  case (Numbers lf w1 u w2 chromeArgs w3 u' w4 u'' w5 code w6)
  note at5 = reads_at_loop_start[OF w0 Numbers(1-5)]
  have w6: "w6 = snd (readNumbers env lf w5)" using Numbers(6) by simp
  from ev Numbers(8) have "Ev (Scan numbersFilePath) (Text bytes) \<in> set (only {KScan, KReadFile} (trace w6))"
    by (simp add: in_only call_of_def)
  then have o: "reply_error env (calls w5) (Open numbersFilePath) = None"
    and s: "reply_error env (Suc (calls w5)) (Scan numbersFilePath) = None"
    and b: "bytes = reply_text env (Suc (calls w5)) (Scan numbersFilePath)"
    unfolding w6 readNumbers_reads at5(1)
    by (auto split: option.splits)
  have n6: "navigations (trace w6) = [whatsAppURL]"
    using Numbers(6) at5(2) navigations_quiet(7)[of env lf w5] by simp
  from readNumbers_zero[OF o s, of lf] zero b Numbers(6)
  have "code = 1" "last (trace w6) = Ev (Exit 1) Done"
    "last (console (trace w6)) =
      (case snd (ScanLines [] bytes) of
         None \<Rightarrow> Sprintf ''No numbers found in '%s'. Please add phone numbers to the file.\<newline>''
                   [numbersFilePath]
       | Some e \<Rightarrow> Sprintf ''Error reading numbers from '%s': %v\<newline>'' [numbersFilePath, e])"
    by simp_all
  with n6 Numbers(7,8) show ?thesis
    by simp
next
  case (Message lf w1 u w2 chromeArgs w3 u' w4 u'' w5 numbers w6 code w7)
  note at5 = reads_at_loop_start[OF w0 Message(1-5)]
  from inputs_readNumbers[OF Message(6)] at5(1) obtain b where
    i6: "only {KScan, KReadFile} (trace w6) = [Ev (Scan numbersFilePath) (Text b)]"
    and "numbers_of b \<noteq> []"
    by auto
  have w7: "w7 = snd (readMessage env lf w6)" using Message(7) by simp
  from ev Message(9) have "Ev (Scan numbersFilePath) (Text bytes) \<in> set (only {KScan, KReadFile} (trace w7))"
    by (simp add: in_only call_of_def)
  then have "bytes = b"
    unfolding w7 readMessage_reads i6 by auto
  with zero \<open>numbers_of b \<noteq> []\<close> show ?thesis by simp
next
  case (Done lf w1 u w2 chromeArgs w3 u' w4 u'' w5 numbers w6 enc w7 bs' w8)
  from main_returned[OF _ w0, of env bs w'] run Done(9) obtain b m where
    "only {KScan, KReadFile} (trace w') =
       [Ev (Scan numbersFilePath) (Text b), Ev (ReadFile messageFilePath) (Text m)]"
    and "numbers_of b \<noteq> []"
    by auto
  moreover from ev have "Ev (Scan numbersFilePath) (Text bytes) \<in> set (only {KScan, KReadFile} (trace w'))"
    by (simp add: in_only call_of_def)
  ultimately have "bytes = b" by auto
  with zero \<open>numbers_of b \<noteq> []\<close> show ?thesis by simp
qed

lemma empty_message_exit:
  assumes run: "main env w0 = ((out, bs), w')" and w0: "trace w0 = []"
    and ev: "Ev (ReadFile messageFilePath) (Text msg) \<in> set (trace w')"
    and empty: "TrimSpace msg = []"
  shows "out = Exited 1 \<and> last (trace w') = Ev (Exit 1) Done
       \<and> navigations (trace w') = [whatsAppURL]
       \<and> last (console (trace w')) =
           Sprintf ''Message in '%s' is empty. Please write a message to send.\<newline>'' [messageFilePath]"
  using run
proof (cases rule: main_cases)
  case (LogSetup e w1)
  from no_reads_early[OF _ w0 ev] startup_extends(2)[OF LogSetup(1)] LogSetup(3)
  show ?thesis by (simp add: call_of_def)
next
  case (Service lf w1 code w2)
  from no_reads_early[OF _ w0 ev] startup_extends(3)[OF Service(1,2)] Service(4)
  show ?thesis by (simp add: call_of_def)
next
  case (Capabilities lf w1 u w2 code w3)
  from no_reads_early[OF _ w0 ev] startup_extends(4)[OF Capabilities(1,2,3)] Capabilities(5)
  show ?thesis by (simp add: call_of_def)
next
  case (Connect lf w1 u w2 chromeArgs w3 code w4)
  from no_reads_early[OF _ w0 ev] startup_extends(5)[OF Connect(1,2,3,4)] Connect(6)
  show ?thesis by (simp add: call_of_def)
next
  case (Login lf w1 u w2 chromeArgs w3 u' w4 code w5)
  from no_reads_early[OF _ w0 ev] startup_extends(6)[OF Login(1,2,3,4,5)] Login(7)
  show ?thesis by (simp add: call_of_def)
next
  case (Numbers lf w1 u w2 chromeArgs w3 u' w4 u'' w5 code w6)
  note at5 = reads_at_loop_start[OF w0 Numbers(1-5)]
  have w6: "w6 = snd (readNumbers env lf w5)" using Numbers(6) by simp
  from ev Numbers(8) have "Ev (ReadFile messageFilePath) (Text msg) \<in> set (only {KScan, KReadFile} (trace w6))"
    by (simp add: in_only call_of_def)
  then show ?thesis
    unfolding w6 readNumbers_reads at5(1)
    by (auto split: option.splits)
next
  case (Message lf w1 u w2 chromeArgs w3 u' w4 u'' w5 numbers w6 code w7)
  note at5 = reads_at_loop_start[OF w0 Message(1-5)]
  from inputs_readNumbers[OF Message(6)] at5(1) obtain b where
    i6: "only {KScan, KReadFile} (trace w6) = [Ev (Scan numbersFilePath) (Text b)]"
    by auto
  have n6: "navigations (trace w6) = [whatsAppURL]"
    using Message(6) at5(2) navigations_quiet(7)[of env lf w5] by simp
  have w7: "w7 = snd (readMessage env lf w6)" using Message(7) by simp
  from ev Message(9) have "Ev (ReadFile messageFilePath) (Text msg) \<in> set (only {KScan, KReadFile} (trace w7))"
    by (simp add: in_only call_of_def)
  then have o: "reply_error env (calls w6) (ReadFile messageFilePath) = None"
    and m: "msg = reply_text env (calls w6) (ReadFile messageFilePath)"
    unfolding w7 readMessage_reads i6
    by (auto split: option.splits)
  have n7: "navigations (trace w7) = [whatsAppURL]"
    using Message(7) n6 navigations_quiet(8)[of env lf w6] by simp
  from readMessage_empty[OF o, of lf] empty m Message(7)
  have "code = 1" "last (trace w7) = Ev (Exit 1) Done"
    "last (console (trace w7)) =
      Sprintf ''Message in '%s' is empty. Please write a message to send.\<newline>'' [messageFilePath]"
    by simp_all
  with n7 Message(8,9) show ?thesis
    by simp
next
  case (Done lf w1 u w2 chromeArgs w3 u' w4 u'' w5 numbers w6 enc w7 bs' w8)
  from main_returned[OF _ w0, of env bs w'] run Done(9) obtain b m where
    "only {KScan, KReadFile} (trace w') =
       [Ev (Scan numbersFilePath) (Text b), Ev (ReadFile messageFilePath) (Text m)]"
    and "TrimSpace m \<noteq> []"
    by auto
  moreover from ev have "Ev (ReadFile messageFilePath) (Text msg) \<in> set (only {KScan, KReadFile} (trace w'))"
    by (simp add: in_only call_of_def)
  ultimately have "msg = m" by auto
  with empty \<open>TrimSpace m \<noteq> []\<close> show ?thesis by simp
qed

lemma readNumbers_read_calls:
  "map call_of (only {KOpen, KScan, KReadFile} (trace (snd (readNumbers env lf w)))) =
     map call_of (only {KOpen, KScan, KReadFile} (trace w)) @
       (case reply_error env (calls w) (Open numbersFilePath) of
          Some e \<Rightarrow> [Open numbersFilePath]
        | None \<Rightarrow> [Open numbersFilePath, Scan numbersFilePath])"
  by (simp add: readNumbers_def readLines_def only_quiet logging_def call_of_def phase_simps
        split: phase_splits)

lemma readMessage_read_calls:
  "map call_of (only {KOpen, KScan, KReadFile} (trace (snd (readMessage env lf w)))) =
     map call_of (only {KOpen, KScan, KReadFile} (trace w)) @ [ReadFile messageFilePath]"
  by (simp add: readMessage_def only_quiet logging_def call_of_def phase_simps split: phase_splits)

lemma readNumbers_Inr_open:
  "readNumbers env lf w = (Inr numbers, w1) \<Longrightarrow> reply_error env (calls w) (Open numbersFilePath) = None"
  by (auto simp: readNumbers_def readLines_def phase_simps split: option.splits sum.splits if_splits)

lemma extends_split:
  assumes "extends K w w'"
  obtains post where "trace w' = trace w @ post" "within K post"
  using assms by (auto simp: extends_iff)

lemma within_only:
  "within K es \<Longrightarrow> K \<inter> K' = {} \<Longrightarrow> only K' es = []"
  by (auto simp: only_def within_def list_all_iff filter_empty_conv)

lemma reads_of_run:
  assumes run: "main env w0 = ((out, bs), w')" and w0: "trace w0 = []"
  shows "(\<exists>k. map call_of (only {KOpen, KScan, KReadFile} (trace w')) =
               take k [Open numbersFilePath, Scan numbersFilePath, ReadFile messageFilePath])
       \<and> (out = Returned \<longrightarrow>
            (\<exists>pre post. trace w' = pre @ post
               \<and> map call_of (only {KOpen, KScan, KReadFile} pre) =
                   [Open numbersFilePath, Scan numbersFilePath, ReadFile messageFilePath]
               \<and> navigations pre = [whatsAppURL]
               \<and> only {KOpen, KScan, KReadFile} post = []))"
  using run
proof (cases rule: main_cases)
  case (LogSetup e w1)
  have "only {KOpen, KScan, KReadFile} (trace w') = only {KOpen, KScan, KReadFile} (trace w0)"
    unfolding LogSetup(3)
    by (rule only_unaffected[OF startup_extends(2)[OF LogSetup(1)]]) (simp add: starting_def)
  with w0 have "map call_of (only {KOpen, KScan, KReadFile} (trace w')) =
          take 0 [Open numbersFilePath, Scan numbersFilePath, ReadFile messageFilePath]"
    by simp
  then have "\<exists>k. map call_of (only {KOpen, KScan, KReadFile} (trace w')) =
          take k [Open numbersFilePath, Scan numbersFilePath, ReadFile messageFilePath]" ..
  with LogSetup(2) show ?thesis by simp
next
  case (Service lf w1 code w2)
  have "only {KOpen, KScan, KReadFile} (trace w') = only {KOpen, KScan, KReadFile} (trace w0)"
    unfolding Service(4)
    by (rule only_unaffected[OF startup_extends(3)[OF Service(1,2)]]) (simp add: starting_def)
  with w0 have "map call_of (only {KOpen, KScan, KReadFile} (trace w')) =
          take 0 [Open numbersFilePath, Scan numbersFilePath, ReadFile messageFilePath]"
    by simp
  then have "\<exists>k. map call_of (only {KOpen, KScan, KReadFile} (trace w')) =
          take k [Open numbersFilePath, Scan numbersFilePath, ReadFile messageFilePath]" ..
  with Service(3) show ?thesis by simp
next
  case (Capabilities lf w1 u w2 code w3)
  have "only {KOpen, KScan, KReadFile} (trace w') = only {KOpen, KScan, KReadFile} (trace w0)"
    unfolding Capabilities(5)
    by (rule only_unaffected[OF startup_extends(4)[OF Capabilities(1,2,3)]]) (simp add: starting_def)
  with w0 have "map call_of (only {KOpen, KScan, KReadFile} (trace w')) =
          take 0 [Open numbersFilePath, Scan numbersFilePath, ReadFile messageFilePath]"
    by simp
  then have "\<exists>k. map call_of (only {KOpen, KScan, KReadFile} (trace w')) =
          take k [Open numbersFilePath, Scan numbersFilePath, ReadFile messageFilePath]" ..
  with Capabilities(4) show ?thesis by simp
next
  case (Connect lf w1 u w2 chromeArgs w3 code w4)
  have "only {KOpen, KScan, KReadFile} (trace w') = only {KOpen, KScan, KReadFile} (trace w0)"
    unfolding Connect(6)
    by (rule only_unaffected[OF startup_extends(5)[OF Connect(1,2,3,4)]]) (simp add: starting_def)
  with w0 have "map call_of (only {KOpen, KScan, KReadFile} (trace w')) =
          take 0 [Open numbersFilePath, Scan numbersFilePath, ReadFile messageFilePath]"
    by simp
  then have "\<exists>k. map call_of (only {KOpen, KScan, KReadFile} (trace w')) =
          take k [Open numbersFilePath, Scan numbersFilePath, ReadFile messageFilePath]" ..
  with Connect(5) show ?thesis by simp
next
  case (Login lf w1 u w2 chromeArgs w3 u' w4 code w5)
  have "only {KOpen, KScan, KReadFile} (trace w') = only {KOpen, KScan, KReadFile} (trace w0)"
    unfolding Login(7)
    by (rule only_unaffected[OF startup_extends(6)[OF Login(1,2,3,4,5)]]) (simp add: starting_def)
  with w0 have "map call_of (only {KOpen, KScan, KReadFile} (trace w')) =
          take 0 [Open numbersFilePath, Scan numbersFilePath, ReadFile messageFilePath]"
    by simp
  then have "\<exists>k. map call_of (only {KOpen, KScan, KReadFile} (trace w')) =
          take k [Open numbersFilePath, Scan numbersFilePath, ReadFile messageFilePath]" ..
  with Login(6) show ?thesis by simp
next
  case (Numbers lf w1 u w2 chromeArgs w3 u' w4 u'' w5 code w6)
  note at5 = reads_at_loop_start[OF w0 Numbers(1-5)]
  have "\<exists>k. map call_of (only {KOpen, KScan, KReadFile} (trace w6)) =
          take k [Open numbersFilePath, Scan numbersFilePath, ReadFile messageFilePath]"
  proof (cases "reply_error env (calls w5) (Open numbersFilePath)")
    case None
    with readNumbers_read_calls[of env lf w5] Numbers(6) at5(3)
    have "map call_of (only {KOpen, KScan, KReadFile} (trace w6)) =
          take 2 [Open numbersFilePath, Scan numbersFilePath, ReadFile messageFilePath]"
      by simp
    then show ?thesis ..
  next
    case (Some e)
    with readNumbers_read_calls[of env lf w5] Numbers(6) at5(3)
    have "map call_of (only {KOpen, KScan, KReadFile} (trace w6)) =
          take 1 [Open numbersFilePath, Scan numbersFilePath, ReadFile messageFilePath]"
      by simp
    then show ?thesis ..
  qed
  with Numbers(7,8) show ?thesis by simp
next
  case (Message lf w1 u w2 chromeArgs w3 u' w4 u'' w5 numbers w6 code w7)
  note at5 = reads_at_loop_start[OF w0 Message(1-5)]
  from readNumbers_read_calls[of env lf w5] Message(6) at5(3) readNumbers_Inr_open[OF Message(6)]
  have "map call_of (only {KOpen, KScan, KReadFile} (trace w6)) =
          [Open numbersFilePath, Scan numbersFilePath]"
    by simp
  with readMessage_read_calls[of env lf w6] Message(7)
  have "map call_of (only {KOpen, KScan, KReadFile} (trace w7)) =
          take 3 [Open numbersFilePath, Scan numbersFilePath, ReadFile messageFilePath]"
    by simp
  then have "\<exists>k. map call_of (only {KOpen, KScan, KReadFile} (trace w7)) =
          take k [Open numbersFilePath, Scan numbersFilePath, ReadFile messageFilePath]" ..
  with Message(8,9) show ?thesis by simp
next
  case (Done lf w1 u w2 chromeArgs w3 u' w4 u'' w5 numbers w6 enc w7 bs' w8)
  note at5 = reads_at_loop_start[OF w0 Done(1-5)]
  from readNumbers_read_calls[of env lf w5] Done(6) at5(3) readNumbers_Inr_open[OF Done(6)]
  have "map call_of (only {KOpen, KScan, KReadFile} (trace w6)) =
          [Open numbersFilePath, Scan numbersFilePath]"
    by simp
  with readMessage_read_calls[of env lf w6] Done(7)
  have r7: "map call_of (only {KOpen, KScan, KReadFile} (trace w7)) =
          [Open numbersFilePath, Scan numbersFilePath, ReadFile messageFilePath]"
    by simp
  have n7: "navigations (trace w7) = [whatsAppURL]"
    using at5(2) Done(6,7) navigations_quiet(7)[of env lf w5] navigations_quiet(8)[of env lf w6]
    by simp
  let ?K = "sending \<union> {KSleep, KQuit, KServiceStop, KFileClose}"
  have "extends ?K w7 (snd (sendMessages env lf enc numbers w7))"
    by (rule extends_sendMessages[OF extends_refl]) blast
  then have "extends ?K w7 (snd ((), finish env lf (snd (sendMessages env lf enc numbers w7))))"
    by (rule extends_finish) (auto simp: sending_def)
  with Done(8,10) have "extends ?K w7 w'" by simp
  then obtain post where post: "trace w' = trace w7 @ post" "within ?K post"
    by (rule extends_split)
  have "only {KOpen, KScan, KReadFile} post = []"
    by (rule within_only[OF post(2)]) (simp add: sending_def polling_def logging_def)
  note np = \<open>only {KOpen, KScan, KReadFile} post = []\<close>
  have split: "\<exists>pre post. trace w' = pre @ post
               \<and> map call_of (only {KOpen, KScan, KReadFile} pre) =
                   [Open numbersFilePath, Scan numbersFilePath, ReadFile messageFilePath]
               \<and> navigations pre = [whatsAppURL]
               \<and> only {KOpen, KScan, KReadFile} post = []"
    by (intro exI[of _ "trace w7"] exI[of _ post] conjI post(1) r7 n7 np)
  from post(1) r7 np
  have "map call_of (only {KOpen, KScan, KReadFile} (trace w')) =
          take 3 [Open numbersFilePath, Scan numbersFilePath, ReadFile messageFilePath]"
    by simp
  then have "\<exists>k. map call_of (only {KOpen, KScan, KReadFile} (trace w')) =
          take k [Open numbersFilePath, Scan numbersFilePath, ReadFile messageFilePath]" ..
  with split show ?thesis by (intro conjI impI)
qed

subsection \<open>The argument vector is carried along and never read\<close>

lemma perform_argv [simp]:
  "perform env c r (w\<lparr>argv := a\<rparr>) = (perform env c r w)\<lparr>argv := a\<rparr>"
  by (simp add: perform_def)

lemma time_Sleep_argv [simp]:
  "time_Sleep env d (w\<lparr>argv := a\<rparr>) = (time_Sleep env d w)\<lparr>argv := a\<rparr>"
  by (simp add: time_Sleep_def perform_def)

lemma logMessage_argv [simp]:
  "logMessage env olf fmt ops (w\<lparr>argv := a\<rparr>) = (logMessage env olf fmt ops w)\<lparr>argv := a\<rparr>"
  by (simp add: logMessage_def phase_simps split: phase_splits)

lemma log_Fatalf_argv [simp]:
  "log_Fatalf env m (w\<lparr>argv := a\<rparr>) = (log_Fatalf env m w)\<lparr>argv := a\<rparr>"
  by (simp add: phase_simps split: phase_splits)

lemma openLogFile_argv [simp]:
  "fst (openLogFile env (w\<lparr>argv := a\<rparr>)) = fst (openLogFile env w)"
  "snd (openLogFile env (w\<lparr>argv := a\<rparr>)) = (snd (openLogFile env w))\<lparr>argv := a\<rparr>"
  by (simp_all add: openLogFile_def phase_simps split: phase_splits)

lemma setupLogFile_argv [simp]:
  "fst (setupLogFile env (w\<lparr>argv := a\<rparr>)) = fst (setupLogFile env w)"
  "snd (setupLogFile env (w\<lparr>argv := a\<rparr>)) = (snd (setupLogFile env w))\<lparr>argv := a\<rparr>"
  by (simp_all add: setupLogFile_def phase_simps split: phase_splits)

lemma startService_argv [simp]:
  "fst (startService env lf (w\<lparr>argv := a\<rparr>)) = fst (startService env lf w)"
  "snd (startService env lf (w\<lparr>argv := a\<rparr>)) = (snd (startService env lf w))\<lparr>argv := a\<rparr>"
  by (simp_all add: startService_def chromeDriverPath_nonempty phase_simps split: phase_splits)

lemma setupCapabilities_argv [simp]:
  "fst (setupCapabilities env lf (w\<lparr>argv := a\<rparr>)) = fst (setupCapabilities env lf w)"
  "snd (setupCapabilities env lf (w\<lparr>argv := a\<rparr>)) = (snd (setupCapabilities env lf w))\<lparr>argv := a\<rparr>"
  by (simp_all add: setupCapabilities_def phase_simps split: phase_splits)

lemma connectWebDriver_argv [simp]:
  "fst (connectWebDriver env lf cargs (w\<lparr>argv := a\<rparr>)) = fst (connectWebDriver env lf cargs w)"
  "snd (connectWebDriver env lf cargs (w\<lparr>argv := a\<rparr>)) =
     (snd (connectWebDriver env lf cargs w))\<lparr>argv := a\<rparr>"
  by (simp_all add: connectWebDriver_def phase_simps split: phase_splits)

lemma waitForLogin_argv:
  "waitForLogin env lf start (w\<lparr>argv := a\<rparr>) =
     (fst (waitForLogin env lf start w), (snd (waitForLogin env lf start w))\<lparr>argv := a\<rparr>)"
proof (induction env lf start w rule: waitForLogin.induct)
  case (1 env logFile startTime w)
  define f where "f = fst (wd_FindElement env ByCSSSelector loginCheckSelector w)"
  define w1 where "w1 = snd (wd_FindElement env ByCSSSelector loginCheckSelector w)"
  have F: "wd_FindElement env ByCSSSelector loginCheckSelector w = (f, w1)"
    by (simp add: f_def w1_def)
  have F': "wd_FindElement env ByCSSSelector loginCheckSelector (w\<lparr>argv := a\<rparr>) = (f, w1\<lparr>argv := a\<rparr>)"
    by (simp add: f_def w1_def wd_FindElement_def split: option.split)
  show ?case
  proof (cases f)
    case (Inr el)
    with F F' show ?thesis
      by (simp add: waitForLogin.simps[of env logFile startTime w]
            waitForLogin.simps[of env logFile startTime "w\<lparr>argv := a\<rparr>"])
  next
    case (Inl e)
    show ?thesis
    proof (cases "120 * Second < clock w1 - startTime")
      case True
      with F F' Inl show ?thesis
        by (simp add: waitForLogin.simps[of env logFile startTime w]
              waitForLogin.simps[of env logFile startTime "w\<lparr>argv := a\<rparr>"])
    next
      case False
      note IH = "1.IH"[OF F[symmetric] Inl False]
      with F F' Inl False show ?thesis
        by (simp add: waitForLogin.simps[of env logFile startTime w]
              waitForLogin.simps[of env logFile startTime "w\<lparr>argv := a\<rparr>"])
    qed
  qed
qed

lemma waitForLogin_argv' [simp]:
  "fst (waitForLogin env lf start (w\<lparr>argv := a\<rparr>)) = fst (waitForLogin env lf start w)"
  "snd (waitForLogin env lf start (w\<lparr>argv := a\<rparr>)) = (snd (waitForLogin env lf start w))\<lparr>argv := a\<rparr>"
  by (simp_all add: waitForLogin_argv)

lemma loginWhatsApp_argv [simp]:
  "fst (loginWhatsApp env lf (w\<lparr>argv := a\<rparr>)) = fst (loginWhatsApp env lf w)"
  "snd (loginWhatsApp env lf (w\<lparr>argv := a\<rparr>)) = (snd (loginWhatsApp env lf w))\<lparr>argv := a\<rparr>"
  by (simp_all add: loginWhatsApp_def phase_simps split: phase_splits)

lemma readLines_argv [simp]:
  "fst (readLines env path (w\<lparr>argv := a\<rparr>)) = fst (readLines env path w)"
  "snd (readLines env path (w\<lparr>argv := a\<rparr>)) = (snd (readLines env path w))\<lparr>argv := a\<rparr>"
  by (simp_all add: readLines_def phase_simps split: phase_splits)

lemma readNumbers_argv [simp]:
  "fst (readNumbers env lf (w\<lparr>argv := a\<rparr>)) = fst (readNumbers env lf w)"
  "snd (readNumbers env lf (w\<lparr>argv := a\<rparr>)) = (snd (readNumbers env lf w))\<lparr>argv := a\<rparr>"
  by (simp_all add: readNumbers_def os_Exit_def Let_def split_beta split: phase_splits)

lemma readMessage_argv [simp]:
  "fst (readMessage env lf (w\<lparr>argv := a\<rparr>)) = fst (readMessage env lf w)"
  "snd (readMessage env lf (w\<lparr>argv := a\<rparr>)) = (snd (readMessage env lf w))\<lparr>argv := a\<rparr>"
  by (simp_all add: readMessage_def phase_simps split: phase_splits)

lemma trySelectors_argv:
  "trySelectors env sels (w\<lparr>argv := a\<rparr>) =
     (fst (trySelectors env sels w), (snd (trySelectors env sels w))\<lparr>argv := a\<rparr>)"
  by (induction sels arbitrary: w) (simp_all add: phase_simps split: phase_splits)

lemma pollSendButton_argv:
  "pollSendButton env start (w\<lparr>argv := a\<rparr>) =
     (fst (pollSendButton env start w), (snd (pollSendButton env start w))\<lparr>argv := a\<rparr>)"
proof (induction env start w rule: pollSendButton.induct)
  case (1 env waitStartTime w)
  define b where "b = fst (trySelectors env sendButtonSelectors w)"
  define w1 where "w1 = snd (trySelectors env sendButtonSelectors w)"
  have T: "trySelectors env sendButtonSelectors w = (b, w1)"
    by (simp add: b_def w1_def)
  have T': "trySelectors env sendButtonSelectors (w\<lparr>argv := a\<rparr>) = (b, w1\<lparr>argv := a\<rparr>)"
    by (simp add: b_def w1_def trySelectors_argv)
  show ?case
  proof (cases "clock w - waitStartTime < 30 * Second")
    case False
    then show ?thesis
      by (simp add: pollSendButton.simps[of env waitStartTime w]
            pollSendButton.simps[of env waitStartTime "w\<lparr>argv := a\<rparr>"])
  next
    case True
    show ?thesis
    proof (cases b)
      case (Some el)
      with True T T' show ?thesis
        by (simp add: pollSendButton.simps[of env waitStartTime w]
              pollSendButton.simps[of env waitStartTime "w\<lparr>argv := a\<rparr>"])
    next
      case None
      note IH = "1.IH"[OF True T[symmetric] None]
      with True T T' None show ?thesis
        by (simp add: pollSendButton.simps[of env waitStartTime w]
              pollSendButton.simps[of env waitStartTime "w\<lparr>argv := a\<rparr>"])
    qed
  qed
qed

lemma pollSendButton_argv' [simp]:
  "fst (pollSendButton env start (w\<lparr>argv := a\<rparr>)) = fst (pollSendButton env start w)"
  "snd (pollSendButton env start (w\<lparr>argv := a\<rparr>)) = (snd (pollSendButton env start w))\<lparr>argv := a\<rparr>"
  by (simp_all add: pollSendButton_argv)

lemma sendWithoutButton_argv [simp]:
  "fst (sendWithoutButton env lf number (w\<lparr>argv := a\<rparr>)) = fst (sendWithoutButton env lf number w)"
  "snd (sendWithoutButton env lf number (w\<lparr>argv := a\<rparr>)) =
     (snd (sendWithoutButton env lf number w))\<lparr>argv := a\<rparr>"
  by (simp_all add: sendWithoutButton_def skipUnsent_def phase_simps split: phase_splits)

lemma clickSendButton_argv [simp]:
  "fst (clickSendButton env lf number b (w\<lparr>argv := a\<rparr>)) = fst (clickSendButton env lf number b w)"
  "snd (clickSendButton env lf number b (w\<lparr>argv := a\<rparr>)) =
     (snd (clickSendButton env lf number b w))\<lparr>argv := a\<rparr>"
  by (simp_all add: clickSendButton_def skipPersistent_def phase_simps split: phase_splits)

lemma processNumber_argv [simp]:
  "fst (processNumber env lf enc number (w\<lparr>argv := a\<rparr>)) = fst (processNumber env lf enc number w)"
  "snd (processNumber env lf enc number (w\<lparr>argv := a\<rparr>)) =
     (snd (processNumber env lf enc number w))\<lparr>argv := a\<rparr>"
  by (simp_all add: processNumber_def phase_simps split: phase_splits)

lemma sendMessages_argv:
  "sendMessages env lf enc numbers (w\<lparr>argv := a\<rparr>) =
     (fst (sendMessages env lf enc numbers w), (snd (sendMessages env lf enc numbers w))\<lparr>argv := a\<rparr>)"
  by (induction numbers arbitrary: w) (simp_all add: split_beta)

lemma finish_argv [simp]:
  "finish env lf (w\<lparr>argv := a\<rparr>) = (finish env lf w)\<lparr>argv := a\<rparr>"
  by (simp add: finish_def phase_simps split: phase_splits)

lemma main_argv:
  "main env (w\<lparr>argv := a\<rparr>) = (fst (main env w), (snd (main env w))\<lparr>argv := a\<rparr>)"
  by (simp add: main_def split_beta sendMessages_argv split: sum.split)

subsection \<open>What is written to the log file\<close>

lemma logged_after_append:
  "logged_after lf h (xs @ ys) \<longleftrightarrow> logged_after lf h xs \<and> logged_after lf (rev xs @ h) ys"
  by (induction xs arbitrary: h) auto

lemma well_logged_append [simp]:
  "well_logged lf (tr @ es) \<longleftrightarrow> well_logged lf tr \<and> logged_after lf (rev tr) es"
  by (simp add: well_logged_def logged_after_append)

lemma well_logged_Nil [simp]: "well_logged lf []"
  by (simp add: well_logged_def)

lemma entry_ok_other [simp]: "written c = None \<Longrightarrow> entry_ok lf (Ev c r) before"
  by (simp add: entry_ok_def call_of_def)

lemma written_kind: "kind_of c \<noteq> KWriteString \<Longrightarrow> written c = None"
  by (cases c) simp_all

lemma logged_after_within:
  "within K es \<Longrightarrow> KWriteString \<notin> K \<Longrightarrow> logged_after lf h es"
proof (induction es arbitrary: h)
  case Nil
  show ?case by simp
next
  case (Cons e es)
  obtain c r where e: "e = Ev c r" by (cases e)
  with Cons.prems have "kind_of c \<noteq> KWriteString" by auto
  then have "written c = None" by (rule written_kind)
  with Cons e show ?case by simp
qed

lemma well_logged_unaffected:
  assumes "extends K w w'" and "KWriteString \<notin> K"
  shows "well_logged lf (trace w') \<longleftrightarrow> well_logged lf (trace w)"
proof -
  from assms(1) obtain es where es: "trace w' = trace w @ es" "within K es"
    by (auto simp: extends_iff)
  from logged_after_within[OF es(2) assms(2)] es(1) show ?thesis by simp
qed

lemma well_logged_logMessage [simp]:
  "well_logged lf (trace (logMessage env (Some lf) fmt ops w)) \<longleftrightarrow> well_logged lf (trace w)"
  by (simp add: logMessage_def phase_simps entry_ok_def stamp_of_def call_of_def reply_of_def
        split: phase_splits)


lemma well_logged_setupLogFile:
  "well_logged lf (trace (snd (setupLogFile env w))) \<longleftrightarrow> well_logged lf (trace w)"
  by (rule well_logged_unaffected[OF extends_setupLogFile[OF extends_refl subset_refl]]) simp

lemma well_logged_startService:
  "well_logged lf (trace (snd (startService env lf w))) \<longleftrightarrow> well_logged lf (trace w)"
  by (simp add: startService_def chromeDriverPath_nonempty phase_simps split: phase_splits)

lemma well_logged_setupCapabilities:
  "well_logged lf (trace (snd (setupCapabilities env lf w))) \<longleftrightarrow> well_logged lf (trace w)"
  by (simp add: setupCapabilities_def phase_simps split: phase_splits)

lemma well_logged_connectWebDriver:
  "well_logged lf (trace (snd (connectWebDriver env lf cargs w))) \<longleftrightarrow> well_logged lf (trace w)"
  by (simp add: connectWebDriver_def phase_simps split: phase_splits)

lemma well_logged_waitForLogin:
  "well_logged lf (trace (snd (waitForLogin env lf start w))) \<longleftrightarrow> well_logged lf (trace w)"
proof (induction env lf start w rule: waitForLogin.induct)
  case (1 env logFile startTime w)
  define f where "f = fst (wd_FindElement env ByCSSSelector loginCheckSelector w)"
  define w1 where "w1 = snd (wd_FindElement env ByCSSSelector loginCheckSelector w)"
  have F: "wd_FindElement env ByCSSSelector loginCheckSelector w = (f, w1)"
    by (simp add: f_def w1_def)
  have st: "well_logged logFile (trace w1) \<longleftrightarrow> well_logged logFile (trace w)"
    by (simp add: w1_def phase_simps split: phase_splits)
  show ?case
  proof (cases f)
    case (Inr el)
    with F st show ?thesis
      by (subst waitForLogin.simps) simp
  next
    case (Inl e)
    show ?thesis
    proof (cases "120 * Second < clock w1 - startTime")
      case True
      with F Inl st show ?thesis
        by (subst waitForLogin.simps) simp
    next
      case False
      have "well_logged logFile (trace (snd (waitForLogin env logFile startTime (time_Sleep env (1 * Second) w1))))
          \<longleftrightarrow> well_logged logFile (trace (time_Sleep env (1 * Second) w1))"
        using "1.IH"[OF F[symmetric] Inl False] .
      with F Inl False st show ?thesis
        by (subst waitForLogin.simps) simp
    qed
  qed
qed

lemma well_logged_loginWhatsApp:
  "well_logged lf (trace (snd (loginWhatsApp env lf w))) \<longleftrightarrow> well_logged lf (trace w)"
  by (simp add: loginWhatsApp_def well_logged_waitForLogin phase_simps split: phase_splits)

lemma well_logged_readLines:
  "well_logged lf (trace (snd (readLines env path w))) \<longleftrightarrow> well_logged lf (trace w)"
  by (rule well_logged_unaffected[OF extends_readLines[OF extends_refl subset_refl]]) simp

lemma well_logged_readNumbers:
  "well_logged lf (trace (snd (readNumbers env lf w))) \<longleftrightarrow> well_logged lf (trace w)"
  by (simp add: readNumbers_def well_logged_readLines os_Exit_def Let_def split_beta split: phase_splits)

lemma well_logged_readMessage:
  "well_logged lf (trace (snd (readMessage env lf w))) \<longleftrightarrow> well_logged lf (trace w)"
  by (simp add: readMessage_def phase_simps split: phase_splits)

lemma well_logged_pollSendButton:
  "well_logged lf (trace (snd (pollSendButton env start w))) \<longleftrightarrow> well_logged lf (trace w)"
  by (rule well_logged_unaffected[OF extends_pollSendButton[OF extends_refl subset_refl]])
     (simp add: polling_def)

lemma well_logged_sendWithoutButton:
  "well_logged lf (trace (snd (sendWithoutButton env lf number w))) \<longleftrightarrow> well_logged lf (trace w)"
  by (simp add: sendWithoutButton_def skipUnsent_def phase_simps split: phase_splits)

lemma well_logged_clickSendButton:
  "well_logged lf (trace (snd (clickSendButton env lf number b w))) \<longleftrightarrow> well_logged lf (trace w)"
  by (simp add: clickSendButton_def skipPersistent_def phase_simps split: phase_splits)

lemma well_logged_processNumber:
  "well_logged lf (trace (snd (processNumber env lf enc number w))) \<longleftrightarrow> well_logged lf (trace w)"
  by (simp add: processNumber_def well_logged_pollSendButton well_logged_sendWithoutButton
        well_logged_clickSendButton phase_simps split: phase_splits)

lemma well_logged_sendMessages:
  "well_logged lf (trace (snd (sendMessages env lf enc numbers w))) \<longleftrightarrow> well_logged lf (trace w)"
  by (induction numbers arbitrary: w) (simp_all add: split_beta well_logged_processNumber)

lemma well_logged_finish:
  "well_logged lf (trace (finish env lf w)) \<longleftrightarrow> well_logged lf (trace w)"
  by (simp add: finish_def phase_simps)

lemmas well_logged_phases =
  well_logged_startService well_logged_setupCapabilities well_logged_connectWebDriver
  well_logged_loginWhatsApp well_logged_readNumbers well_logged_readMessage
  well_logged_sendMessages well_logged_finish

lemma main_well_logged:
  assumes "main env w0 = (res, w')" and "trace w0 = []" and "setupLogFile env w0 = (Inr lf, w1)"
  shows "well_logged lf (trace w')"
proof -
  have "well_logged lf (trace w1)"
    using well_logged_setupLogFile[of lf env w0] assms(2,3) by simp
  with assms(1,3) show ?thesis
    by (auto simp: main_def split_beta well_logged_phases split: sum.splits)
qed

lemma main_no_log:
  assumes "main env w0 = (res, w')" and "setupLogFile env w0 = (Inl e, w1)"
  shows "res = (Exited 1, [])" and "trace w' = trace w1 @
           [Ev (Stderr (Sprintf ''Error setting up log file: %v'' [e]))
              (case reply_error env (calls w1) (Stderr (Sprintf ''Error setting up log file: %v'' [e])) of
                 None \<Rightarrow> Done | Some x \<Rightarrow> Failed x),
            Ev (Exit 1) Done]"
  using assms
  by (auto simp: main_def phase_simps)

lemma main_opens:
  "only {KOpenFile} (trace (snd (main env w0))) = only {KOpenFile} (trace (snd (setupLogFile env w0)))"
  by (simp add: main_def split_beta only_quiet logging_def sending_def polling_def split: sum.split)

lemma Sprintf_log_name: "Sprintf ''%s_log.txt'' [ts] = ts @ ''_log.txt''"
  by (simp add: Sprintf.simps)

lemma openLogFile_opens:
  "\<exists>ts rp. Ev (NowFormat ''2006-01-02_15-04-05'') (Text ts) \<in> set (trace (snd (openLogFile env w)))
     \<and> only {KOpenFile, KWriteString} (trace (snd (openLogFile env w))) =
         only {KOpenFile, KWriteString} (trace w) @
         [Ev (OpenFile (pathJoin env logsDir (ts @ ''_log.txt'')) [O_APPEND, O_CREATE, O_WRONLY] 420) rp]
     \<and> (\<forall>lf. fst (openLogFile env w) = Inr lf \<longrightarrow> lf = pathJoin env logsDir (ts @ ''_log.txt''))"
  by (auto simp: openLogFile_def Sprintf_log_name phase_simps split: phase_splits)

lemma setupLogFile_opens:
  assumes "trace w0 = []"
  shows "(only {KOpenFile, KWriteString} (trace (snd (setupLogFile env w0))) = []
          \<and> (\<exists>e. fst (setupLogFile env w0) = Inl e))
       \<or> (\<exists>ts rp. Ev (NowFormat ''2006-01-02_15-04-05'') (Text ts) \<in> set (trace (snd (setupLogFile env w0)))
           \<and> only {KOpenFile, KWriteString} (trace (snd (setupLogFile env w0))) =
               [Ev (OpenFile (pathJoin env logsDir (ts @ ''_log.txt'')) [O_APPEND, O_CREATE, O_WRONLY] 420) rp]
           \<and> (\<forall>lf. fst (setupLogFile env w0) = Inr lf \<longrightarrow> lf = pathJoin env logsDir (ts @ ''_log.txt'')))"
proof -
  define s where "s = fst (os_Stat env logsDir w0)"
  define v1 where "v1 = snd (os_Stat env logsDir w0)"
  have t1: "only {KOpenFile, KWriteString} (trace v1) = []"
    using assms by (simp add: v1_def phase_simps)
  show ?thesis
  proof (cases "os_IsNotExist env s")
    case False
    then have "setupLogFile env w0 = openLogFile env v1"
      by (simp add: setupLogFile_def s_def v1_def split_beta)
    with openLogFile_opens[of env v1] t1 show ?thesis by auto
  next
    case True
    define m where "m = fst (os_MkdirAll env logsDir 493 v1)"
    define v2 where "v2 = snd (os_MkdirAll env logsDir 493 v1)"
    have t2: "only {KOpenFile, KWriteString} (trace v2) = []"
      using t1 by (simp add: v2_def phase_simps)
    show ?thesis
    proof (cases m)
      case (Some e)
      with True have "setupLogFile env w0 =
          (Inl (Sprintf ''failed to create logs directory '%s': %w'' [logsDir, e]), v2)"
        by (simp add: setupLogFile_def s_def v1_def m_def v2_def split_beta)
      with t2 show ?thesis by simp
    next
      case None
      let ?v3 = "fmt_Print env (Sprintf ''Logs directory created: %s\<newline>'' [logsDir]) v2"
      from None True have "setupLogFile env w0 = openLogFile env ?v3"
        by (simp add: setupLogFile_def s_def v1_def m_def v2_def split_beta)
      moreover have "only {KOpenFile, KWriteString} (trace ?v3) = []"
        using t2 by (simp add: phase_simps)
      ultimately show ?thesis
        using openLogFile_opens[of env ?v3] by auto
    qed
  qed
qed

lemma main_extends:
  "extends UNIV (snd (setupLogFile env w0)) (snd (main env w0))"
proof -
  have "extends UNIV (snd (setupLogFile env w0)) (snd (main env w0))"
    if "main env w0 = (res, w')" for res w'
    using that
  proof (cases rule: main_cases)
    case (LogSetup e w1)
    then show ?thesis by (auto simp: that)
  next
    case (Service lf w1 code w2)
    have "extends UNIV w1 (snd (startService env lf (logMessage env (Some lf) ''Application started.\<newline>'' [] w1)))"
      by auto
    with Service show ?thesis by (simp add: that)
  next
    case (Capabilities lf w1 u w2 code w3)
    have "extends UNIV w1 (snd (setupCapabilities env lf
            (snd (startService env lf (logMessage env (Some lf) ''Application started.\<newline>'' [] w1)))))"
      by auto
    with Capabilities show ?thesis by (simp add: that)
  next
    case (Connect lf w1 u w2 chromeArgs w3 code w4)
    have "extends UNIV w1 (snd (connectWebDriver env lf chromeArgs (snd (setupCapabilities env lf
            (snd (startService env lf (logMessage env (Some lf) ''Application started.\<newline>'' [] w1)))))))"
      by auto
    with Connect show ?thesis by (simp add: that)
  next
    case (Login lf w1 u w2 chromeArgs w3 u' w4 code w5)
    have "extends UNIV w1 (snd (loginWhatsApp env lf (snd (connectWebDriver env lf chromeArgs
            (snd (setupCapabilities env lf
            (snd (startService env lf (logMessage env (Some lf) ''Application started.\<newline>'' [] w1)))))))))"
      by auto
    with Login show ?thesis by (simp add: that)
  next
    case (Numbers lf w1 u w2 chromeArgs w3 u' w4 u'' w5 code w6)
    have "extends UNIV w1 (snd (readNumbers env lf (snd (loginWhatsApp env lf
            (snd (connectWebDriver env lf chromeArgs
            (snd (setupCapabilities env lf
            (snd (startService env lf (logMessage env (Some lf) ''Application started.\<newline>'' [] w1)))))))))))"
      by auto
    with Numbers show ?thesis by (simp add: that)
  next
    case (Message lf w1 u w2 chromeArgs w3 u' w4 u'' w5 numbers w6 code w7)
    have "extends UNIV w1 (snd (readMessage env lf (snd (readNumbers env lf (snd (loginWhatsApp env lf
            (snd (connectWebDriver env lf chromeArgs
            (snd (setupCapabilities env lf
            (snd (startService env lf (logMessage env (Some lf) ''Application started.\<newline>'' [] w1)))))))))))))"
      by auto
    with Message show ?thesis by (simp add: that)
  next
    case (Done lf w1 u w2 chromeArgs w3 u' w4 u'' w5 numbers w6 enc w7 bs w8)
    have "extends UNIV w1 (snd ((), finish env lf (snd (sendMessages env lf enc numbers
            (snd (readMessage env lf (snd (readNumbers env lf (snd (loginWhatsApp env lf
            (snd (connectWebDriver env lf chromeArgs
            (snd (setupCapabilities env lf
            (snd (startService env lf (logMessage env (Some lf) ''Application started.\<newline>'' [] w1)))))))))))))))))"
      by (intro extends_finish extends_sendMessages extends_readMessage extends_readNumbers
            extends_loginWhatsApp extends_connectWebDriver extends_setupCapabilities
            extends_startService extends_logMessage extends_refl subset_UNIV)
    with Done show ?thesis by (simp add: that)
  qed
  then show ?thesis by (metis prod.collapse)
qed

lemma only_only: "K \<subseteq> K' \<Longrightarrow> only K (only K' tr) = only K tr"
  by (induction tr) (auto simp: only_def)

lemma log_of_run:
  assumes run: "main env w0 = (res, w')" and w0: "trace w0 = []"
  shows "only {KOpenFile, KWriteString} (trace w') = []
       \<or> (\<exists>ts rp. Ev (NowFormat ''2006-01-02_15-04-05'') (Text ts) \<in> set (trace w')
            \<and> only {KOpenFile} (trace w') =
                [Ev (OpenFile (pathJoin env logsDir (ts @ ''_log.txt'')) [O_APPEND, O_CREATE, O_WRONLY] 420) rp]
            \<and> well_logged (pathJoin env logsDir (ts @ ''_log.txt'')) (trace w'))"
proof -
  define r where "r = fst (setupLogFile env w0)"
  define w1 where "w1 = snd (setupLogFile env w0)"
  have S: "setupLogFile env w0 = (r, w1)" by (simp add: r_def w1_def)
  have w': "w' = snd (main env w0)" using run by simp
  from main_extends[of env w0] obtain es where es: "trace w' = trace w1 @ es"
    unfolding w'[symmetric] w1_def[symmetric] by (auto simp: extends_iff)
  have nowrite: "well_logged lf (trace w1)" for lf
    using well_logged_setupLogFile[of lf env w0] w0 by (simp add: w1_def)
  from setupLogFile_opens[OF w0, of env]
  show ?thesis
    unfolding r_def[symmetric] w1_def[symmetric]
  proof (elim disjE conjE exE)
    fix e
    assume a: "only {KOpenFile, KWriteString} (trace w1) = []" and e: "r = Inl e"
    from main_no_log(2)[OF run S[unfolded e]] a
    have "only {KOpenFile, KWriteString} (trace w') = []" by simp
    then show ?thesis ..
  next
    fix ts rp
    let ?P = "pathJoin env logsDir (ts @ ''_log.txt'')"
    assume m: "Ev (NowFormat ''2006-01-02_15-04-05'') (Text ts) \<in> set (trace w1)"
      and o: "only {KOpenFile, KWriteString} (trace w1) =
                [Ev (OpenFile ?P [O_APPEND, O_CREATE, O_WRONLY] 420) rp]"
      and n: "\<forall>lf. r = Inr lf \<longrightarrow> lf = ?P"
    from m es have m': "Ev (NowFormat ''2006-01-02_15-04-05'') (Text ts) \<in> set (trace w')"
      by simp
    have "only {KOpenFile} (only {KOpenFile, KWriteString} (trace w1)) = only {KOpenFile} (trace w1)"
      by (rule only_only) simp
    with o have "only {KOpenFile} (trace w1) = [Ev (OpenFile ?P [O_APPEND, O_CREATE, O_WRONLY] 420) rp]"
      by simp
    with main_opens[of env w0] have o': "only {KOpenFile} (trace w') =
        [Ev (OpenFile ?P [O_APPEND, O_CREATE, O_WRONLY] 420) rp]"
      by (simp add: w' w1_def)
    have l: "well_logged ?P (trace w')"
    proof (cases r)
      case (Inr lf)
      with n have "lf = ?P" by simp
      with main_well_logged[OF run w0 S[unfolded Inr]] show ?thesis by simp
    next
      case (Inl e)
      from main_no_log(2)[OF run S[unfolded Inl]] nowrite[of ?P] show ?thesis
        by simp
    qed
    from m' o' l show ?thesis by blast
  qed
qed


subsection \<open>What is printed is written\<close>

lemma log_lines_append:
  "log_lines lf xs \<Longrightarrow> log_lines lf (xs @ ys) = log_lines lf ys"
proof (induction lf xs rule: log_lines.induct)
  case (1 lf)
  show ?case by simp
next
  case (2 lf e es)
  show ?case
  proof (cases "printed (call_of e)")
    case None
    with 2 show ?thesis by simp
  next
    case (Some m)
    with "2.prems" obtain e1 e2 rest stamp where es: "es = e1 # e2 # rest"
      and st: "stamp_of e1 = Some stamp"
      and wr: "call_of e2 = WriteString lf (stamp @ m)" and r: "log_lines lf rest"
      by (auto split: list.splits option.splits)
    from "2.IH"(2)[OF Some es refl st r] wr r have "log_lines lf (rest @ ys) = log_lines lf ys"
      by simp
    with Some es st wr show ?thesis by simp
  qed
qed

lemma printed_kind: "kind_of c \<noteq> KStdout \<Longrightarrow> printed c = None"
  by (cases c) simp_all

lemma log_lines_within:
  "within K es \<Longrightarrow> KStdout \<notin> K \<Longrightarrow> KWriteString \<notin> K \<Longrightarrow> log_lines lf es"
proof (induction es)
  case Nil
  show ?case by simp
next
  case (Cons e es)
  obtain c r where e: "e = Ev c r" by (cases e)
  with Cons.prems have "kind_of c \<noteq> KStdout" "kind_of c \<noteq> KWriteString" by auto
  then have "printed c = None" "written c = None"
    by (simp_all add: printed_kind written_kind)
  with Cons e show ?case by (simp add: call_of_def)
qed

lemma log_lines_log_events: "log_lines lf (log_events env lf fmt ops w)"
  by (simp add: log_events_def logMessage_def phase_simps stamp_of_def call_of_def reply_of_def
      split: phase_splits)

lemma logs_to_iff:
  "logs_to lf w w' \<longleftrightarrow> (\<exists>es. trace w' = trace w @ es \<and> log_lines lf es)"
proof
  assume "logs_to lf w w'"
  then have "trace w' = trace w @ drop (length (trace w)) (trace w')"
    and "log_lines lf (drop (length (trace w)) (trace w'))"
    by (simp_all add: logs_to_def) (metis append_take_drop_id)
  then show "\<exists>es. trace w' = trace w @ es \<and> log_lines lf es" by blast
next
  assume "\<exists>es. trace w' = trace w @ es \<and> log_lines lf es"
  then show "logs_to lf w w'" by (auto simp: logs_to_def)
qed

lemma logs_to_refl [simp, intro!]: "logs_to lf w w"
  by (simp add: logs_to_iff)

lemma logs_to_perform [intro!]:
  "logs_to lf w v \<Longrightarrow> printed c = None \<Longrightarrow> written c = None \<Longrightarrow> logs_to lf w (perform env c r v)"
  by (auto simp: logs_to_iff log_lines_append call_of_def)

lemma logs_to_time_Sleep [intro!]:
  "logs_to lf w v \<Longrightarrow> logs_to lf w (time_Sleep env d v)"
  by (auto simp: logs_to_iff log_lines_append call_of_def)

lemma logs_to_logMessage [intro!]:
  "logs_to lf w v \<Longrightarrow> logs_to lf w (logMessage env (Some lf) fmt ops v)"
  by (auto simp: logs_to_iff trace_logMessage log_lines_append log_lines_log_events)

lemma logs_to_extends:
  assumes "logs_to lf w v" and "extends K v v'" and "KStdout \<notin> K" and "KWriteString \<notin> K"
  shows "logs_to lf w v'"
proof -
  from assms(2) obtain es where es: "trace v' = trace v @ es" "within K es"
    by (auto simp: extends_iff)
  from log_lines_within[OF es(2) assms(3,4)] have "log_lines lf es" .
  with assms(1) es(1) show ?thesis
    by (auto simp: logs_to_iff log_lines_append)
qed

lemma logs_to_startService [intro!]:
  "logs_to lf w v \<Longrightarrow> logs_to lf w (snd (startService env lf v))"
  by (auto simp: startService_def phase_simps split: phase_splits)

lemma logs_to_setupCapabilities [intro!]:
  "logs_to lf w v \<Longrightarrow> logs_to lf w (snd (setupCapabilities env lf v))"
  by (auto simp: setupCapabilities_def phase_simps split: phase_splits)

lemma logs_to_connectWebDriver [intro!]:
  "logs_to lf w v \<Longrightarrow> logs_to lf w (snd (connectWebDriver env lf cargs v))"
  by (auto simp: connectWebDriver_def phase_simps split: phase_splits)

lemma logs_to_waitForLogin [intro!]:
  "logs_to lf w v \<Longrightarrow> logs_to lf w (snd (waitForLogin env lf start v))"
proof (induction env lf start v rule: waitForLogin.induct)
  case (1 env logFile startTime v)
  define f where "f = fst (wd_FindElement env ByCSSSelector loginCheckSelector v)"
  define w1 where "w1 = snd (wd_FindElement env ByCSSSelector loginCheckSelector v)"
  have F: "wd_FindElement env ByCSSSelector loginCheckSelector v = (f, w1)"
    by (simp add: f_def w1_def)
  have e1: "logs_to logFile w w1"
    using "1.prems" by (auto simp: w1_def phase_simps)
  show ?case
  proof (cases f)
    case (Inr el)
    with F e1 show ?thesis
      by (subst waitForLogin.simps) auto
  next
    case (Inl e)
    show ?thesis
    proof (cases "120 * Second < clock w1 - startTime")
      case True
      with F Inl e1 show ?thesis
        by (subst waitForLogin.simps) simp
    next
      case False
      have "logs_to logFile w (time_Sleep env (1 * Second) w1)"
        using e1 by auto
      then have "logs_to logFile w (snd (waitForLogin env logFile startTime (time_Sleep env (1 * Second) w1)))"
        using "1.IH"[OF F[symmetric] Inl False] by simp
      with F Inl False show ?thesis
        by (subst waitForLogin.simps) simp
    qed
  qed
qed

lemma logs_to_loginWhatsApp [intro!]:
  "logs_to lf w v \<Longrightarrow> logs_to lf w (snd (loginWhatsApp env lf v))"
  by (auto simp: loginWhatsApp_def phase_simps split: phase_splits)

lemma logs_to_readLines [intro!]:
  "logs_to lf w v \<Longrightarrow> logs_to lf w (snd (readLines env path v))"
  by (rule logs_to_extends[OF _ extends_readLines[OF extends_refl subset_refl]]) simp_all

lemma logs_to_readNumbers [intro!]:
  "logs_to lf w v \<Longrightarrow> logs_to lf w (snd (readNumbers env lf v))"
  by (auto simp: readNumbers_def os_Exit_def Let_def split_beta split: phase_splits)

lemma logs_to_readMessage [intro!]:
  "logs_to lf w v \<Longrightarrow> logs_to lf w (snd (readMessage env lf v))"
  by (auto simp: readMessage_def phase_simps split: phase_splits)

lemma logs_to_pollSendButton [intro!]:
  "logs_to lf w v \<Longrightarrow> logs_to lf w (snd (pollSendButton env start v))"
  by (rule logs_to_extends[OF _ extends_pollSendButton[OF extends_refl subset_refl]])
     (simp_all add: polling_def)

lemma logs_to_sendWithoutButton [intro!]:
  "logs_to lf w v \<Longrightarrow> logs_to lf w (snd (sendWithoutButton env lf number v))"
  by (auto simp: sendWithoutButton_def skipUnsent_def phase_simps split: phase_splits)

lemma logs_to_clickSendButton [intro!]:
  "logs_to lf w v \<Longrightarrow> logs_to lf w (snd (clickSendButton env lf number b v))"
  by (auto simp: clickSendButton_def skipPersistent_def phase_simps split: phase_splits)

lemma logs_to_processNumber [intro!]:
  "logs_to lf w v \<Longrightarrow> logs_to lf w (snd (processNumber env lf enc number v))"
  by (auto simp: processNumber_def phase_simps split: phase_splits)

lemma logs_to_sendMessages [intro!]:
  "logs_to lf w v \<Longrightarrow> logs_to lf w (snd (sendMessages env lf enc numbers v))"
proof (induction numbers arbitrary: v)
  case Nil
  then show ?case by simp
next
  case (Cons number numbers)
  have "logs_to lf w (snd (processNumber env lf enc number v))"
    using Cons.prems by auto
  from Cons.IH[OF this] show ?case
    by (simp add: split_beta)
qed

lemma logs_to_finish [intro!]:
  "logs_to lf w v \<Longrightarrow> logs_to lf w (finish env lf v)"
  by (auto simp: finish_def phase_simps)





subsection \<open>The attempt without a send control\<close>

lemma logMessage_written:
  "\<exists>stamp r0 rp. only {KStdout, KWriteString} (trace (logMessage env (Some lf) fmt ops w)) =
     only {KStdout, KWriteString} (trace w) @
       [Ev (Stdout (Sprintf fmt ops)) r0, Ev (WriteString lf (stamp @ Sprintf fmt ops)) rp]"
  by (simp add: logMessage_def phase_simps split: phase_splits)

lemma skipUnsent_outcome:
  "fst (skipUnsent env lf number v) = SkippedWithoutButton
   \<and> page_calls (trace (snd (skipUnsent env lf number v))) = page_calls (trace v)
   \<and> (\<exists>stamp r0 rp. only {KStdout, KWriteString} (trace (snd (skipUnsent env lf number v))) =
         only {KStdout, KWriteString} (trace v) @
           [Ev (Stdout (''Skipping '' @ number @ '' as message could not be sent.\<newline>'')) r0,
            Ev (WriteString lf (stamp @ ''Skipping '' @ number @ '' as message could not be sent.\<newline>'')) rp])
   \<and> last (trace (snd (skipUnsent env lf number v))) = Ev (Sleep (2 * Second)) Done"
  using logMessage_written[of env lf "''Skipping %s as message could not be sent.\<newline>''" "[number]" v]
  by (simp add: skipUnsent_def Sprintf.simps)

lemma sendWithoutButton_outcome:
  "((\<exists>e. page_calls (trace (snd (sendWithoutButton env lf number w))) =
          page_calls (trace w) @ [Ev (FindElement ByCSSSelector messageBoxSelector) (Failed e)])
    \<or> (\<exists>box. page_calls (trace (snd (sendWithoutButton env lf number w))) =
          page_calls (trace w) @
            [Ev (FindElement ByCSSSelector messageBoxSelector) (Element box),
             Ev (IsDisplayed box) (Flag False)])
    \<or> (\<exists>box e. page_calls (trace (snd (sendWithoutButton env lf number w))) =
          page_calls (trace w) @
            [Ev (FindElement ByCSSSelector messageBoxSelector) (Element box),
             Ev (IsDisplayed box) (Flag True),
             Ev (SendKeys box EnterKey) (Failed e)]))
   \<and> fst (sendWithoutButton env lf number w) = SkippedWithoutButton
   \<and> (\<exists>stamp r0 rp. only {KStdout, KWriteString} (trace (snd (sendWithoutButton env lf number w))) =
         only {KStdout, KWriteString} (trace w) @
           [Ev (Stdout (''Skipping '' @ number @ '' as message could not be sent.\<newline>'')) r0,
            Ev (WriteString lf (stamp @ ''Skipping '' @ number @ '' as message could not be sent.\<newline>'')) rp])
   \<and> last (trace (snd (sendWithoutButton env lf number w))) = Ev (Sleep (2 * Second)) Done
   \<or> (\<exists>box. page_calls (trace (snd (sendWithoutButton env lf number w))) =
          page_calls (trace w) @
            [Ev (FindElement ByCSSSelector messageBoxSelector) (Element box),
             Ev (IsDisplayed box) (Flag True),
             Ev (SendKeys box EnterKey) Done])
   \<and> fst (sendWithoutButton env lf number w) = EnterWithoutButton
   \<and> only {KStdout, KWriteString} (trace (snd (sendWithoutButton env lf number w))) =
       only {KStdout, KWriteString} (trace w)
   \<and> last (trace (snd (sendWithoutButton env lf number w))) = Ev (Sleep (5 * Second)) Done"
proof -
  define f where "f = fst (wd_FindElement env ByCSSSelector messageBoxSelector w)"
  define w1 where "w1 = snd (wd_FindElement env ByCSSSelector messageBoxSelector w)"
  show ?thesis
  proof (cases f)
    case (Inl e)
    then have u: "sendWithoutButton env lf number w = skipUnsent env lf number w1"
      by (simp add: sendWithoutButton_def f_def w1_def split_beta)
    have "trace w1 = trace w @ [Ev (FindElement ByCSSSelector messageBoxSelector) (Failed e)]"
      using Inl by (simp add: w1_def f_def phase_simps split: option.splits)
    with skipUnsent_outcome[of env lf number w1] show ?thesis
      unfolding u by simp
  next
    case (Inr box)
    define d where "d = fst (element_IsDisplayed env box w1)"
    define w2 where "w2 = snd (element_IsDisplayed env box w1)"
    have t2: "trace w2 = trace w @
        [Ev (FindElement ByCSSSelector messageBoxSelector) (Element box), Ev (IsDisplayed box) (Flag d)]"
      using Inr by (simp add: w2_def d_def w1_def f_def phase_simps split: option.splits)
    show ?thesis
    proof (cases d)
      case False
      then have u: "sendWithoutButton env lf number w = skipUnsent env lf number w2"
        using Inr by (simp add: sendWithoutButton_def f_def w1_def d_def w2_def split_beta)
      from skipUnsent_outcome[of env lf number w2] t2 False show ?thesis
        unfolding u by simp
    next
      case True
      define k where "k = fst (element_SendKeys env box EnterKey w2)"
      define w3 where "w3 = snd (element_SendKeys env box EnterKey w2)"
      have t3: "trace w3 = trace w @
          [Ev (FindElement ByCSSSelector messageBoxSelector) (Element box), Ev (IsDisplayed box) (Flag True),
           Ev (SendKeys box EnterKey) (case k of None \<Rightarrow> Done | Some e \<Rightarrow> Failed e)]"
        using t2 True by (simp add: w3_def k_def phase_simps)
      show ?thesis
      proof (cases k)
        case None
        then have u: "sendWithoutButton env lf number w = (EnterWithoutButton, time_Sleep env (5 * Second) w3)"
          using Inr True
          by (simp add: sendWithoutButton_def f_def w1_def d_def w2_def k_def w3_def split_beta)
        from t3 None show ?thesis unfolding u by simp
      next
        case (Some e)
        then have u: "sendWithoutButton env lf number w = skipUnsent env lf number w3"
          using Inr True
          by (simp add: sendWithoutButton_def f_def w1_def d_def w2_def k_def w3_def split_beta)
        from skipUnsent_outcome[of env lf number w3] t3 Some show ?thesis
          unfolding u by simp
      qed
    qed
  qed
qed

section \<open>How failures are dealt with\<close>

subsection \<open>Failures in the pass for one number\<close>

lemma failed_simps [simp]:
  "failed (Ev c (Failed x))"
  "failed (Ev c (Truncated bytes x))"
  "\<not> failed (Ev c Done)"
  "\<not> failed (Ev c (Element el))"
  "\<not> failed (Ev c (Flag f))"
  "\<not> failed (Ev c (Text s))"
  by (simp_all add: failed_def reply_of_def)




lemma page_calls_log_events [simp]: "page_calls (log_events env lf fmt ops w) = []"
  unfolding page_calls_def by (rule log_events_quiet) (simp add: logging_def)












subsection \<open>Failures before the loop\<close>



lemma exits_quiet:
  "only {KExit} (trace (snd (setupLogFile env w))) = only {KExit} (trace w)"
  "only {KExit} (trace (logMessage env olf fmt ops w)) = only {KExit} (trace w)"
  "only {KExit} (trace (snd (sendMessages env lf enc numbers w))) = only {KExit} (trace w)"
  "only {KExit} (trace (finish env lf w)) = only {KExit} (trace w)"
  by (rule only_quiet, simp add: logging_def sending_def polling_def)+





lemma fatal_quiet:
  "only fatal (trace (logMessage env olf fmt ops w)) = only fatal (trace w)"
  "only fatal (trace (snd (startService env lf w))) = only fatal (trace w)"
  "only fatal (trace (snd (loginWhatsApp env lf w))) = only fatal (trace w)"
  "only fatal (trace (snd (sendMessages env lf enc numbers w))) = only fatal (trace w)"
  "only fatal (trace (finish env lf w)) = only fatal (trace w)"
  by (rule only_quiet, simp add: fatal_def logging_def sending_def polling_def)+









lemma carried_on_logMessage [simp]:
  "carried_on (trace (logMessage env olf fmt ops w)) = carried_on (trace w)"
  by (simp add: carried_on_def exits_quiet fatal_quiet)







section \<open>Concrete runs\<close>

lemmas eval_defs = main_def obliging_def initial_def setupLogFile_def openLogFile_def logMessage_def
  startService_def setupCapabilities_def connectWebDriver_def loginWhatsApp_def readNumbers_def
  readLines_def readMessage_def processNumber_def sendWithoutButton_def clickSendButton_def
  skipUnsent_def skipPersistent_def finish_def prim_defs attempt_def emit_def fetch_def query_def
  perform_def time_Sleep_def time_Now_Format_def wd_FindElement_def scanner_Scan_def
  os_IsNotExist_def chromeDriverPath_def useProfile_def Second_def Millisecond_def
  sendButtonSelectors_def waitForLogin.simps pollSendButton.simps
  TrimSpace_def TrimLeftSpace.simps TrimRightSpace.simps leadingSpace_def trailingSpace_def
  spaceEncodings_def QueryEscape_def escapeByte_def shouldEscape_def upperhex_def
  MaxScanTokenSize_def dropCR_def Let_def Sprintf.simps Itoa.simps
  logsDir_def profileFolder_def numbersFilePath_def messageFilePath_def whatsAppURL_def
  seleniumPort_def loginCheckSelector_def messageBoxSelector_def EnterKey_def

lemma run_one:
  "\<exists>w'. main (obliging ''905\<newline>'' ''Hi there'') (initial [] 0) = ((Returned, [Clicked]), w')
     \<and> trace w' =
     [Ev (Stat ''logs'') Done,
      Ev (NowFormat ''2006-01-02_15-04-05'') (Text ''T''),
      Ev (OpenFile ''logs/T_log.txt'' [O_APPEND, O_CREATE, O_WRONLY] 420) Done,
      Ev (Stdout ''Logging to: logs/T_log.txt\<newline>'') Done,
      Ev (Stdout ''Application started.\<newline>'') Done,
      Ev (NowFormat ''[2006-01-02 15:04:05] '') (Text ''T''),
      Ev (WriteString ''logs/T_log.txt'' ''TApplication started.\<newline>'') Done,
      Ev (NewChromeDriverService (''chromedriver-win64'' @ [CHR 0x5C] @ ''chromedriver.exe'') 9515) Done,
      Ev (Abs ''whatsapp_profile_go'') (Text ''/whatsapp_profile_go''),
      Ev (Stat ''/whatsapp_profile_go'') Done,
      Ev (NewRemote ''chrome'' [''user-data-dir=/whatsapp_profile_go''] ''http://localhost:9515/wd/hub'') Done,
      Ev (Get ''https://web.whatsapp.com/'') Done,
      Ev (FindElement ByCSSSelector ''div[role='textbox']'') (Element 7),
      Ev (Stdout ''Login check element found.\<newline>'') Done,
      Ev (NowFormat ''[2006-01-02 15:04:05] '') (Text ''T''),
      Ev (WriteString ''logs/T_log.txt'' ''TLogin check element found.\<newline>'') Done,
      Ev (Sleep 3000000000) Done,
      Ev (Open ''numbers.txt'') Done,
      Ev (Scan ''numbers.txt'') (Text ''905\<newline>''),
      Ev (FileClose ''numbers.txt'') Done,
      Ev (ReadFile ''text.txt'') (Text ''Hi there''),
      Ev (Get ''https://web.whatsapp.com/send?phone=905&text=Hi+there'') Done,
      Ev (FindElement ByXPATH ''//span[@data-icon='wds-ic-send-filled']'') (Element 7),
      Ev (IsDisplayed 7) (Flag True),
      Ev (IsEnabled 7) (Flag True),
      Ev (Click 7) Done,
      Ev (Stdout ''SUCCESS: Message sent to: 905\<newline>'') Done,
      Ev (NowFormat ''[2006-01-02 15:04:05] '') (Text ''T''),
      Ev (WriteString ''logs/T_log.txt'' ''TSUCCESS: Message sent to: 905\<newline>'') Done,
      Ev (Sleep 5000000000) Done,
      Ev (Stdout ''\<newline>All message sending attempts completed.\<newline>'') Done,
      Ev (NowFormat ''[2006-01-02 15:04:05] '') (Text ''T''),
      Ev (WriteString ''logs/T_log.txt'' ''T\<newline>All message sending attempts completed.\<newline>'') Done,
      Ev (Stdout ''Please check WhatsApp Web to confirm sent messages and the log file for details.\<newline>'') Done,
      Ev (NowFormat ''[2006-01-02 15:04:05] '') (Text ''T''),
      Ev (WriteString ''logs/T_log.txt''
            ''TPlease check WhatsApp Web to confirm sent messages and the log file for details.\<newline>'') Done,
      Ev (Stdout ''Browser window will close in 10 seconds...\<newline>'') Done,
      Ev (NowFormat ''[2006-01-02 15:04:05] '') (Text ''T''),
      Ev (WriteString ''logs/T_log.txt'' ''TBrowser window will close in 10 seconds...\<newline>'') Done,
      Ev (Sleep 10000000000) Done,
      Ev (Stdout ''Application finished.\<newline>'') Done,
      Ev (NowFormat ''[2006-01-02 15:04:05] '') (Text ''T''),
      Ev (WriteString ''logs/T_log.txt'' ''TApplication finished.\<newline>'') Done,
      Ev Quit Done,
      Ev ServiceStop Done,
      Ev (FileClose ''logs/T_log.txt'') Done]"
  by (simp add: eval_defs)

lemma sendURL_concat:
  "sendURL enc number = ''https://web.whatsapp.com/send?phone='' @ number @ ''&text='' @ enc"
  by (simp add: sendURL_def Sprintf.simps)

lemma run_no_numbers:
  "\<exists>w'. main (obliging [] ''Hi'') (initial [] 0) = ((Exited 1, []), w')
     \<and> Ev (Scan numbersFilePath) (Text []) \<in> set (trace w')
     \<and> console (trace w') =
         [''Logging to: logs/T_log.txt\<newline>'', ''Application started.\<newline>'',
          ''Login check element found.\<newline>'',
          ''No numbers found in 'numbers.txt'. Please add phone numbers to the file.\<newline>'']"
  by (simp add: eval_defs)

lemma run_blank_message:
  "\<exists>w'. main (obliging ''905\<newline>'' [CHR 0x20, CHR 0x0A]) (initial [] 0) = ((Exited 1, []), w')
     \<and> Ev (ReadFile messageFilePath) (Text [CHR 0x20, CHR 0x0A]) \<in> set (trace w')"
  by (simp add: eval_defs)


lemma run_no_send_control:
  "fst (main no_send_control (initial [] 0)) = (Returned, [SkippedWithoutButton])"
  "page_calls (trace (snd (main no_send_control (initial [] 0)))) =
     Ev (FindElement ByCSSSelector loginCheckSelector) (Element 7)
       # pass_events sendButtonSelectors
           [Absent ''no such element'', Absent ''no such element'', Absent ''no such element'',
            Absent ''no such element'', Absent ''no such element'']
       @ [Ev (FindElement ByCSSSelector messageBoxSelector) (Failed ''no such element'')]"
  "only {KSleep} (trace (snd (main no_send_control (initial [] 0)))) =
     [Ev (Sleep (3 * Second)) Done, Ev (Sleep (500 * Millisecond)) Done,
      Ev (Sleep (2 * Second)) Done, Ev (Sleep (10 * Second)) Done]"
  "only {KSendKeys} (trace (snd (main no_send_control (initial [] 0)))) = []"
  by (simp_all add: no_send_control_def eval_defs)

lemma step_no_send_control:
  "fst (wd_Get no_send_control (sendURL ''Hi'' ''905'') (initial [] 0)) = None"
  "fst (pollSendButton no_send_control
          (clock (snd (wd_Get no_send_control (sendURL ''Hi'' ''905'') (initial [] 0))))
          (snd (wd_Get no_send_control (sendURL ''Hi'' ''905'') (initial [] 0)))) = None"
  "fst (processNumber no_send_control ''log'' ''Hi'' ''905'' (initial [] 0)) = SkippedWithoutButton"
  by (simp_all add: no_send_control_def eval_defs)

lemma step_obliging:
  "fst (wd_Get (obliging [] []) (sendURL ''Hi'' ''905'') (initial [] 0)) = None"
  "fst (pollSendButton (obliging [] [])
          (clock (snd (wd_Get (obliging [] []) (sendURL ''Hi'' ''905'') (initial [] 0))))
          (snd (wd_Get (obliging [] []) (sendURL ''Hi'' ''905'') (initial [] 0)))) = Some 7"
  "fst (processNumber (obliging [] []) ''log'' ''Hi'' ''905'' (initial [] 0)) = Clicked"
  by (simp_all add: eval_defs)

lemma run_several:
  "fst (main several_numbers (initial [] 0)) = (Returned, [Clicked, EmptyLine, Clicked, Clicked])"
  "only {KScan, KReadFile} (trace (snd (main several_numbers (initial [] 0)))) =
     [Ev (Scan ''numbers.txt'') (Text ''905\<newline>\<newline> 441 \<newline>777\<newline>''),
      Ev (ReadFile ''text.txt'') (Text ('' 50% off & caf'' @ [CHR 0xC3, CHR 0xA9] @ ''!\<newline>''))]"
  "navigations (trace (snd (main several_numbers (initial [] 0)))) =
     [''https://web.whatsapp.com/'',
      ''https://web.whatsapp.com/send?phone=905&text=50%25+off+%26+caf%C3%A9%21'',
      ''https://web.whatsapp.com/send?phone=441&text=50%25+off+%26+caf%C3%A9%21'',
      ''https://web.whatsapp.com/send?phone=777&text=50%25+off+%26+caf%C3%A9%21'']"
  "smooth (trace (snd (main several_numbers (initial [] 0))))"
  by (simp_all add: several_numbers_def eval_defs)






subsection \<open>The query escape, the lines of the numbers file and the send address\<close>


lemma upperhex_kept:
  "k < 16 \<Longrightarrow> \<not> shouldEscape (upperhex ! k)"
proof -
  assume "k < 16"
  then have "k = 0 \<or> k = 1 \<or> k = 2 \<or> k = 3 \<or> k = 4 \<or> k = 5 \<or> k = 6 \<or> k = 7 \<or> k = 8
      \<or> k = 9 \<or> k = 10 \<or> k = 11 \<or> k = 12 \<or> k = 13 \<or> k = 14 \<or> k = 15"
    by arith
  then show ?thesis
    by (elim disjE) (simp_all add: upperhex_def shouldEscape_def)
qed

lemma escapeByte_bytes:
  "list_all (\<lambda>c. shouldEscape c \<longrightarrow> c = CHR ''+'' \<or> c = CHR ''%'') (escapeByte c)"
proof -
  have "(of_char c :: nat) < 256" by (cases c) simp
  then have "(of_char c :: nat) div 16 < 16" by arith
  moreover have "(of_char c :: nat) mod 16 < 16" by simp
  ultimately show ?thesis
    by (simp add: escapeByte_def upperhex_kept)
qed

lemma QueryEscape_bytes:
  "list_all (\<lambda>c. shouldEscape c \<longrightarrow> c = CHR ''+'' \<or> c = CHR ''%'') (QueryEscape s)"
  using escapeByte_bytes by (induction s) (simp_all add: QueryEscape_def)


lemma set_TrimLeftSpace: "set (TrimLeftSpace s) \<subseteq> set s"
proof (induction s rule: TrimLeftSpace.induct)
  case (1 s)
  show ?case
  proof (cases "leadingSpace s = 0")
    case True
    then show ?thesis by (simp add: TrimLeftSpace.simps[of s])
  next
    case False
    from "1.IH"[OF False] have "set (TrimLeftSpace (drop (leadingSpace s) s)) \<subseteq> set s"
      using set_drop_subset[of "leadingSpace s" s] by blast
    with False show ?thesis by (simp add: TrimLeftSpace.simps[of s])
  qed
qed

lemma set_TrimRightSpace: "set (TrimRightSpace s) \<subseteq> set s"
proof (induction s rule: TrimRightSpace.induct)
  case (1 s)
  show ?case
  proof (cases "trailingSpace s = 0")
    case True
    then show ?thesis by (simp add: TrimRightSpace.simps[of s])
  next
    case False
    from "1.IH"[OF False]
    have "set (TrimRightSpace (take (length s - trailingSpace s) s)) \<subseteq> set s"
      using set_take_subset[of "length s - trailingSpace s" s] by blast
    with False show ?thesis by (simp add: TrimRightSpace.simps[of s])
  qed
qed

lemma set_TrimSpace: "set (TrimSpace s) \<subseteq> set s"
  unfolding TrimSpace_def using set_TrimRightSpace set_TrimLeftSpace by blast

lemma set_dropCR: "set (dropCR l) \<subseteq> set l"
  by (auto simp: dropCR_def dest: in_set_butlastD)

lemma ScanLines_within_line:
  "CHR 0x0A \<notin> set cur \<Longrightarrow> l \<in> set (fst (ScanLines cur cs)) \<Longrightarrow> CHR 0x0A \<notin> set l"
proof (induction cs arbitrary: cur)
  case Nil
  then show ?case using set_dropCR[of cur] by (auto split: if_splits)
next
  case (Cons c cs)
  show ?case
  proof (cases "c = CHR 0x0A")
    case True
    with Cons.prems(2) have "l = dropCR cur \<or> l \<in> set (fst (ScanLines [] cs))"
      by (auto split: if_splits)
    then show ?thesis
    proof
      assume "l = dropCR cur"
      with Cons.prems(1) set_dropCR[of cur] show ?thesis by blast
    next
      assume "l \<in> set (fst (ScanLines [] cs))"
      with Cons.IH[of "[]"] show ?thesis by simp
    qed
  next
    case False
    with Cons.prems have "CHR 0x0A \<notin> set (cur @ [c])" "l \<in> set (fst (ScanLines (cur @ [c]) cs))"
      by simp_all
    then show ?thesis by (rule Cons.IH)
  qed
qed

lemma numbers_of_within_line:
  "n \<in> set (numbers_of bytes) \<Longrightarrow> CHR 0x0A \<notin> set n"
proof -
  assume "n \<in> set (numbers_of bytes)"
  then obtain l where l: "l \<in> set (fst (ScanLines [] bytes))" and n: "n = TrimSpace l"
    by (auto simp: numbers_of_def)
  from ScanLines_within_line[OF _ l] have "CHR 0x0A \<notin> set l" by simp
  with n set_TrimSpace[of l] show ?thesis by blast
qed

lemma sendURL_inj: "sendURL enc n = sendURL enc m \<Longrightarrow> n = m"
  by (simp add: sendURL_concat)

lemma sendURL_not_home: "sendURL enc n \<noteq> whatsAppURL"
  by (simp add: sendURL_concat whatsAppURL_def)

lemma distinct_sendURLs:
  "distinct ns \<Longrightarrow> distinct (whatsAppURL # map (sendURL enc) ns)"
  using sendURL_not_home[of enc, symmetric] sendURL_not_home[of enc]
  by (auto simp: distinct_map inj_on_def dest: sendURL_inj)

section \<open>The claims\<close>



text \<open>
  C4. In a run that reaches the end of \<open>main\<close>, the loop makes one pass for each line
  of the numbers file, in the order of the file; a number is the trimmed text of one
  line, so it holds no line feed. The pass for a line that is empty is the empty one,
  and the passes for the other lines navigate, one after the other and once each, to
  the send address of their number with the one encoded message. So when no number is
  in the file twice, no page is navigated to twice. A number that the file holds
  twice is a line twice, and has a pass for each.
\<close>

theorem numbers_in_file_order:
  assumes "main env (initial a t) = ((Returned, bs), w')"
  shows "\<exists>bytes msg.
           only {KScan, KReadFile} (trace w') =
             [Ev (Scan numbersFilePath) (Text bytes), Ev (ReadFile messageFilePath) (Text msg)]
         \<and> length bs = length (numbers_of bytes)
         \<and> map (\<lambda>b. b = EmptyLine) bs = map (\<lambda>n. n = []) (numbers_of bytes)
         \<and> navigations (trace w') =
             whatsAppURL # map (sendURL (QueryEscape (TrimSpace msg)))
                             (filter (\<lambda>n. n \<noteq> []) (numbers_of bytes))
         \<and> (\<forall>n \<in> set (numbers_of bytes). CHR 0x0A \<notin> set n)
         \<and> (distinct (filter (\<lambda>n. n \<noteq> []) (numbers_of bytes)) \<longrightarrow>
               distinct (navigations (trace w')))"
proof -
  have "trace (initial a t) = []" by (simp add: initial_def)
  from main_returned[OF assms this] obtain bytes msg where
    r: "only {KScan, KReadFile} (trace w') =
          [Ev (Scan numbersFilePath) (Text bytes), Ev (ReadFile messageFilePath) (Text msg)]"
    and l: "length bs = length (numbers_of bytes)"
    and e: "map (\<lambda>b. b = EmptyLine) bs = map (\<lambda>n. n = []) (numbers_of bytes)"
    and n: "navigations (trace w') =
             whatsAppURL # map (sendURL (QueryEscape (TrimSpace msg)))
                             (filter (\<lambda>n. n \<noteq> []) (numbers_of bytes))"
    by blast
  have w: "\<forall>n \<in> set (numbers_of bytes). CHR 0x0A \<notin> set n"
    using numbers_of_within_line by blast
  have d: "distinct (filter (\<lambda>n. n \<noteq> []) (numbers_of bytes)) \<longrightarrow>
             distinct (navigations (trace w'))"
    unfolding n by (intro impI distinct_sendURLs)
  from r l e n w d show ?thesis
    by (intro exI[of _ bytes] exI[of _ msg] conjI)
qed

theorem numbers_in_file_order_witness:
  "\<exists>w'. main several_numbers (initial [] 0) = ((Returned, [Clicked, EmptyLine, Clicked, Clicked]), w')
     \<and> only {KScan, KReadFile} (trace w') =
         [Ev (Scan numbersFilePath) (Text ''905\<newline>\<newline> 441 \<newline>777\<newline>''),
          Ev (ReadFile messageFilePath) (Text ('' 50% off & caf'' @ [CHR 0xC3, CHR 0xA9] @ ''!\<newline>''))]
     \<and> numbers_of ''905\<newline>\<newline> 441 \<newline>777\<newline>'' = [''905'', [], ''441'', ''777'']
     \<and> navigations (trace w') =
         [''https://web.whatsapp.com/'',
          ''https://web.whatsapp.com/send?phone=905&text=50%25+off+%26+caf%C3%A9%21'',
          ''https://web.whatsapp.com/send?phone=441&text=50%25+off+%26+caf%C3%A9%21'',
          ''https://web.whatsapp.com/send?phone=777&text=50%25+off+%26+caf%C3%A9%21'']
     \<and> distinct (navigations (trace w'))"
proof -
  define w' where "w' = snd (main several_numbers (initial [] 0))"
  have run: "main several_numbers (initial [] 0) = ((Returned, [Clicked, EmptyLine, Clicked, Clicked]), w')"
    using run_several(1) by (simp add: w'_def prod_eq_iff)
  have rd: "only {KScan, KReadFile} (trace w') =
         [Ev (Scan numbersFilePath) (Text ''905\<newline>\<newline> 441 \<newline>777\<newline>''),
          Ev (ReadFile messageFilePath) (Text ('' 50% off & caf'' @ [CHR 0xC3, CHR 0xA9] @ ''!\<newline>''))]"
    using run_several(2) by (simp add: w'_def numbersFilePath_def messageFilePath_def)
  have ns: "numbers_of ''905\<newline>\<newline> 441 \<newline>777\<newline>'' = [''905'', [], ''441'', ''777'']"
    by (simp add: numbers_of_def eval_defs)
  have enc: "QueryEscape (TrimSpace ('' 50% off & caf'' @ [CHR 0xC3, CHR 0xA9] @ ''!\<newline>'')) =
      ''50%25+off+%26+caf%C3%A9%21''"
    by (simp add: eval_defs)
  from numbers_in_file_order[OF run] obtain bytes msg where
    r: "only {KScan, KReadFile} (trace w') =
          [Ev (Scan numbersFilePath) (Text bytes), Ev (ReadFile messageFilePath) (Text msg)]"
    and n: "navigations (trace w') =
             whatsAppURL # map (sendURL (QueryEscape (TrimSpace msg)))
                             (filter (\<lambda>n. n \<noteq> []) (numbers_of bytes))"
    and d: "distinct (filter (\<lambda>n. n \<noteq> []) (numbers_of bytes)) \<longrightarrow>
               distinct (navigations (trace w'))"
    by blast
  from r rd have bm: "bytes = ''905\<newline>\<newline> 441 \<newline>777\<newline>''"
    "msg = '' 50% off & caf'' @ [CHR 0xC3, CHR 0xA9] @ ''!\<newline>''"
    by simp_all
  from n have nav: "navigations (trace w') =
         [''https://web.whatsapp.com/'',
          ''https://web.whatsapp.com/send?phone=905&text=50%25+off+%26+caf%C3%A9%21'',
          ''https://web.whatsapp.com/send?phone=441&text=50%25+off+%26+caf%C3%A9%21'',
          ''https://web.whatsapp.com/send?phone=777&text=50%25+off+%26+caf%C3%A9%21'']"
    unfolding bm ns enc by (simp add: sendURL_concat whatsAppURL_def)
  from d have dn: "distinct (navigations (trace w'))"
    unfolding bm ns by simp
  from run rd ns nav dn show ?thesis
    by (intro exI[of _ w'] conjI)
qed

text \<open>
  C10. In a run that reaches the end of \<open>main\<close>, the pages the browser is sent to
  are WhatsApp Web and then, for each line of the numbers file that is not empty, in
  order, the text \<open>https://web.whatsapp.com/send?phone=\<close>, the number, \<open>&text=\<close>
  and the query escape of the trimmed bytes of the message file: the message is
  escaped once, and every number gets the same escaped text. The escaped text holds
  only bytes that the escape keeps as they are, \<open>+\<close> and \<open>%\<close>.
\<close>

theorem send_address:
  assumes "main env (initial a t) = ((Returned, bs), w')"
  shows "\<exists>bytes msg.
           only {KScan, KReadFile} (trace w') =
             [Ev (Scan numbersFilePath) (Text bytes), Ev (ReadFile messageFilePath) (Text msg)]
         \<and> navigations (trace w') =
             whatsAppURL #
             map (\<lambda>n. ''https://web.whatsapp.com/send?phone='' @ n @ ''&text='' @ QueryEscape (TrimSpace msg))
               (filter (\<lambda>n. n \<noteq> []) (numbers_of bytes))
         \<and> list_all (\<lambda>c. shouldEscape c \<longrightarrow> c = CHR ''+'' \<or> c = CHR ''%'')
              (QueryEscape (TrimSpace msg))"
proof -
  have "trace (initial a t) = []" by (simp add: initial_def)
  from main_returned[OF assms this] obtain bytes msg where
    "only {KScan, KReadFile} (trace w') =
       [Ev (Scan numbersFilePath) (Text bytes), Ev (ReadFile messageFilePath) (Text msg)]"
    "navigations (trace w') =
       whatsAppURL # map (sendURL (QueryEscape (TrimSpace msg)))
                       (filter (\<lambda>n. n \<noteq> []) (numbers_of bytes))"
    by blast
  with QueryEscape_bytes[of "TrimSpace msg"] show ?thesis
    unfolding sendURL_concat by (intro exI[of _ bytes] exI[of _ msg] conjI)
qed

theorem send_address_witness:
  "\<exists>w'. main several_numbers (initial [] 0) = ((Returned, [Clicked, EmptyLine, Clicked, Clicked]), w')
     \<and> only {KScan, KReadFile} (trace w') =
         [Ev (Scan numbersFilePath) (Text ''905\<newline>\<newline> 441 \<newline>777\<newline>''),
          Ev (ReadFile messageFilePath) (Text ('' 50% off & caf'' @ [CHR 0xC3, CHR 0xA9] @ ''!\<newline>''))]
     \<and> QueryEscape (TrimSpace ('' 50% off & caf'' @ [CHR 0xC3, CHR 0xA9] @ ''!\<newline>'')) =
         ''50%25+off+%26+caf%C3%A9%21''
     \<and> navigations (trace w') =
         [''https://web.whatsapp.com/'',
          ''https://web.whatsapp.com/send?phone=905&text=50%25+off+%26+caf%C3%A9%21'',
          ''https://web.whatsapp.com/send?phone=441&text=50%25+off+%26+caf%C3%A9%21'',
          ''https://web.whatsapp.com/send?phone=777&text=50%25+off+%26+caf%C3%A9%21'']"
proof -
  define w' where "w' = snd (main several_numbers (initial [] 0))"
  have run: "main several_numbers (initial [] 0) = ((Returned, [Clicked, EmptyLine, Clicked, Clicked]), w')"
    using run_several(1) by (simp add: w'_def prod_eq_iff)
  have rd: "only {KScan, KReadFile} (trace w') =
         [Ev (Scan numbersFilePath) (Text ''905\<newline>\<newline> 441 \<newline>777\<newline>''),
          Ev (ReadFile messageFilePath) (Text ('' 50% off & caf'' @ [CHR 0xC3, CHR 0xA9] @ ''!\<newline>''))]"
    using run_several(2) by (simp add: w'_def numbersFilePath_def messageFilePath_def)
  have ns: "numbers_of ''905\<newline>\<newline> 441 \<newline>777\<newline>'' = [''905'', [], ''441'', ''777'']"
    by (simp add: numbers_of_def eval_defs)
  have enc: "QueryEscape (TrimSpace ('' 50% off & caf'' @ [CHR 0xC3, CHR 0xA9] @ ''!\<newline>'')) =
      ''50%25+off+%26+caf%C3%A9%21''"
    by (simp add: eval_defs)
  from send_address[OF run] obtain bytes msg where
    r: "only {KScan, KReadFile} (trace w') =
          [Ev (Scan numbersFilePath) (Text bytes), Ev (ReadFile messageFilePath) (Text msg)]"
    and n: "navigations (trace w') =
             whatsAppURL #
             map (\<lambda>n. ''https://web.whatsapp.com/send?phone='' @ n @ ''&text='' @ QueryEscape (TrimSpace msg))
               (filter (\<lambda>n. n \<noteq> []) (numbers_of bytes))"
    by blast
  from r rd have bm: "bytes = ''905\<newline>\<newline> 441 \<newline>777\<newline>''"
    "msg = '' 50% off & caf'' @ [CHR 0xC3, CHR 0xA9] @ ''!\<newline>''"
    by simp_all
  from n have nav: "navigations (trace w') =
         [''https://web.whatsapp.com/'',
          ''https://web.whatsapp.com/send?phone=905&text=50%25+off+%26+caf%C3%A9%21'',
          ''https://web.whatsapp.com/send?phone=441&text=50%25+off+%26+caf%C3%A9%21'',
          ''https://web.whatsapp.com/send?phone=777&text=50%25+off+%26+caf%C3%A9%21'']"
    unfolding bm ns enc by (simp add: whatsAppURL_def)
  from run rd enc nav show ?thesis
    by (intro exI[of _ w'] conjI)
qed

text \<open>
  C8. \<open>readLines\<close> returns every line the scanner cut from the file with its leading
  and trailing white space trimmed. For a line that is empty after trimming, the loop
  body calls no collaborator at all: it leaves the process as it found it, with no
  navigation, no polling, no fallback and no log entry. So the loop does to the
  process what it would do with those lines taken out of the list.
\<close>

theorem blank_lines_skipped:
  "(reply_error env (calls w) (Open path) = None \<longrightarrow>
      fst (fst (readLines env path w)) =
        map TrimSpace (fst (ScanLines [] (reply_text env (Suc (calls w)) (Scan path)))))
   \<and> (TrimSpace line = [] \<longrightarrow>
        processNumber env logFile encodedMessage (TrimSpace line) w = (EmptyLine, w))
   \<and> snd (sendMessages env logFile encodedMessage numbers w) =
       snd (sendMessages env logFile encodedMessage (filter (\<lambda>n. n \<noteq> []) numbers) w)"
  using readLines_lines[of env w path] processNumber_empty[of env logFile encodedMessage w]
    sendMessages_filter[of env logFile encodedMessage numbers w]
  by simp

theorem blank_lines_skipped_witness:
  "reply_error (obliging ('' 905 '' @ [CHR 0x0D, CHR 0x0A, CHR 0x09, CHR 0x0A]) ''Hi'') (calls (initial [] 0))
      (Open numbersFilePath) = None
   \<and> fst (fst (readLines (obliging ('' 905 '' @ [CHR 0x0D, CHR 0x0A, CHR 0x09, CHR 0x0A]) ''Hi'')
        numbersFilePath (initial [] 0))) = [''905'', []]
   \<and> TrimSpace [CHR 0x09] = []
   \<and> processNumber (obliging [] []) ''log'' ''Hi'' (TrimSpace [CHR 0x09]) (initial [] 0)
       = (EmptyLine, initial [] 0)"
proof -
  let ?env = "obliging ('' 905 '' @ [CHR 0x0D, CHR 0x0A, CHR 0x09, CHR 0x0A]) ''Hi''"
  have o: "reply_error ?env (calls (initial [] 0)) (Open numbersFilePath) = None"
    by (simp add: obliging_def)
  have t: "TrimSpace [CHR 0x09] = []"
    by (simp add: eval_defs)
  have "map TrimSpace (fst (ScanLines [] (reply_text ?env (Suc (calls (initial [] 0))) (Scan numbersFilePath))))
      = [''905'', []]"
    by (simp add: eval_defs)
  with o t blank_lines_skipped[of ?env "initial [] 0" numbersFilePath "[CHR 0x09]" "''log''" "''Hi''" "[]"]
    blank_lines_skipped[of "obliging [] []" "initial [] 0" numbersFilePath "[CHR 0x09]" "''log''" "''Hi''" "[]"]
  show ?thesis by simp
qed

text \<open>
  C9. If the scan of the numbers file gave no line, the run ends with \<open>os.Exit(1)\<close>
  as its last call, after logging that no numbers were found (or the scanner's error,
  when the scan stopped on one); if the message file holds nothing but white space, it
  ends the same way after logging that the message is empty. In both cases the
  browser has been sent to WhatsApp Web only: no send address was navigated to.
\<close>

theorem empty_inputs_exit:
  assumes "main env (initial a t) = ((out, bs), w')"
  shows "(Ev (Scan numbersFilePath) (Text bytes) \<in> set (trace w') \<and> numbers_of bytes = [] \<longrightarrow>
            out = Exited 1 \<and> last (trace w') = Ev (Exit 1) Done
          \<and> navigations (trace w') = [whatsAppURL]
          \<and> last (console (trace w')) =
              (case snd (ScanLines [] bytes) of
                 None \<Rightarrow> Sprintf ''No numbers found in '%s'. Please add phone numbers to the file.\<newline>''
                           [numbersFilePath]
               | Some e \<Rightarrow> Sprintf ''Error reading numbers from '%s': %v\<newline>'' [numbersFilePath, e]))
       \<and> (Ev (ReadFile messageFilePath) (Text msg) \<in> set (trace w') \<and> TrimSpace msg = [] \<longrightarrow>
            out = Exited 1 \<and> last (trace w') = Ev (Exit 1) Done
          \<and> navigations (trace w') = [whatsAppURL]
          \<and> last (console (trace w')) =
              Sprintf ''Message in '%s' is empty. Please write a message to send.\<newline>''
                [messageFilePath])"
proof -
  have w0: "trace (initial a t) = []" by (simp add: initial_def)
  show ?thesis
    using zero_numbers_exit[OF assms w0, of bytes] empty_message_exit[OF assms w0, of msg]
    by blast
qed

theorem empty_inputs_exit_witness:
  "(\<exists>w'. main (obliging [] ''Hi'') (initial [] 0) = ((Exited 1, []), w')
      \<and> Ev (Scan numbersFilePath) (Text []) \<in> set (trace w') \<and> numbers_of [] = []
      \<and> last (trace w') = Ev (Exit 1) Done \<and> navigations (trace w') = [whatsAppURL]
      \<and> last (console (trace w')) =
          ''No numbers found in 'numbers.txt'. Please add phone numbers to the file.\<newline>'')
   \<and> (\<exists>w'. main (obliging ''905\<newline>'' [CHR 0x20, CHR 0x0A]) (initial [] 0) = ((Exited 1, []), w')
      \<and> Ev (ReadFile messageFilePath) (Text [CHR 0x20, CHR 0x0A]) \<in> set (trace w')
      \<and> TrimSpace [CHR 0x20, CHR 0x0A] = []
      \<and> last (trace w') = Ev (Exit 1) Done \<and> navigations (trace w') = [whatsAppURL]
      \<and> last (console (trace w')) =
          ''Message in 'text.txt' is empty. Please write a message to send.\<newline>'')"
proof -
  from run_no_numbers obtain w1 where
    r1: "main (obliging [] ''Hi'') (initial [] 0) = ((Exited 1, []), w1)"
    and e1: "Ev (Scan numbersFilePath) (Text []) \<in> set (trace w1)"
    by blast
  have z: "numbers_of [] = []" "snd (ScanLines [] []) = None"
    by (simp_all add: numbers_of_def MaxScanTokenSize_def)
  from run_blank_message obtain w2 where
    r2: "main (obliging ''905\<newline>'' [CHR 0x20, CHR 0x0A]) (initial [] 0) = ((Exited 1, []), w2)"
    and e2: "Ev (ReadFile messageFilePath) (Text [CHR 0x20, CHR 0x0A]) \<in> set (trace w2)"
    by blast
  have t: "TrimSpace [CHR 0x20, CHR 0x0A] = []"
    by (simp add: eval_defs)
  have f: "Sprintf ''No numbers found in '%s'. Please add phone numbers to the file.\<newline>''
             [numbersFilePath]
           = ''No numbers found in 'numbers.txt'. Please add phone numbers to the file.\<newline>''"
    "Sprintf ''Message in '%s' is empty. Please write a message to send.\<newline>'' [messageFilePath]
           = ''Message in 'text.txt' is empty. Please write a message to send.\<newline>''"
    by (simp_all add: Sprintf.simps numbersFilePath_def messageFilePath_def)
  from empty_inputs_exit[OF r1, of "[]" "[]"] e1 z
  have c1: "last (trace w1) = Ev (Exit 1) Done \<and> navigations (trace w1) = [whatsAppURL]
      \<and> last (console (trace w1)) =
          ''No numbers found in 'numbers.txt'. Please add phone numbers to the file.\<newline>''"
    by (simp add: f)
  from empty_inputs_exit[OF r2, of "[]" "[CHR 0x20, CHR 0x0A]"] e2 t
  have c2: "last (trace w2) = Ev (Exit 1) Done \<and> navigations (trace w2) = [whatsAppURL]
      \<and> last (console (trace w2)) =
          ''Message in 'text.txt' is empty. Please write a message to send.\<newline>''"
    by (simp add: f)
  from r1 e1 z c1 r2 e2 t c2 show ?thesis by blast
qed

text \<open>
  C5. In every run the calls that read an input file are, in this order and at most
  once each, the opening of the numbers file, the one scan that reads it to its end and
  cuts it into lines, and the one \<open>os.ReadFile\<close> of the message file; a run that ends
  early has made the first few of them. In a run that reaches the end of \<open>main\<close> the
  trace splits in two parts: the first holds all three reads and no navigation but
  the one to WhatsApp Web, so the loop has not begun; the second, which holds the whole
  loop, reads no file.
\<close>

theorem inputs_read_once:
  assumes "main env (initial a t) = ((out, bs), w')"
  shows "(\<exists>k. map call_of (only {KOpen, KScan, KReadFile} (trace w')) =
               take k [Open numbersFilePath, Scan numbersFilePath, ReadFile messageFilePath])
       \<and> (out = Returned \<longrightarrow>
            (\<exists>pre post. trace w' = pre @ post
               \<and> map call_of (only {KOpen, KScan, KReadFile} pre) =
                   [Open numbersFilePath, Scan numbersFilePath, ReadFile messageFilePath]
               \<and> navigations pre = [whatsAppURL]
               \<and> only {KOpen, KScan, KReadFile} post = []))"
proof -
  have "trace (initial a t) = []" by (simp add: initial_def)
  from reads_of_run[OF assms this] show ?thesis .
qed

theorem inputs_read_once_witness:
  "\<exists>w'. main (obliging ''905\<newline>'' ''Hi there'') (initial [] 0) = ((Returned, [Clicked]), w')
     \<and> (\<exists>pre post. trace w' = pre @ post
           \<and> map call_of (only {KOpen, KScan, KReadFile} pre) =
               [Open numbersFilePath, Scan numbersFilePath, ReadFile messageFilePath]
           \<and> navigations pre = [whatsAppURL]
           \<and> only {KOpen, KScan, KReadFile} post = [])"
proof -
  from run_one obtain w' where
    run: "main (obliging ''905\<newline>'' ''Hi there'') (initial [] 0) = ((Returned, [Clicked]), w')"
    by auto
  have "Returned = Returned \<longrightarrow>
      (\<exists>pre post. trace w' = pre @ post
           \<and> map call_of (only {KOpen, KScan, KReadFile} pre) =
               [Open numbersFilePath, Scan numbersFilePath, ReadFile messageFilePath]
           \<and> navigations pre = [whatsAppURL]
           \<and> only {KOpen, KScan, KReadFile} post = [])"
    using inputs_read_once[OF run] by (rule conjunct2)
  then have "\<exists>pre post. trace w' = pre @ post
           \<and> map call_of (only {KOpen, KScan, KReadFile} pre) =
               [Open numbersFilePath, Scan numbersFilePath, ReadFile messageFilePath]
           \<and> navigations pre = [whatsAppURL]
           \<and> only {KOpen, KScan, KReadFile} post = []"
    by (rule mp) (rule refl)
  with run show ?thesis
    by (intro exI[of _ w'] conjI)
qed

text \<open>
  C7. The program reads no command-line argument: started with the same environment
  and clock but another argument vector, \<open>main\<close> ends the same way, takes the same
  ways through the loop, and leaves a process that differs in nothing but the argument
  vector it was given, so it has made the same calls with the same replies.
\<close>

theorem arguments_ignored:
  "fst (main env (initial a2 t)) = fst (main env (initial a1 t))
   \<and> snd (main env (initial a2 t)) = (snd (main env (initial a1 t)))\<lparr>argv := a2\<rparr>
   \<and> trace (snd (main env (initial a2 t))) = trace (snd (main env (initial a1 t)))"
proof -
  have "initial a2 t = (initial a1 t)\<lparr>argv := a2\<rparr>"
    by (simp add: initial_def)
  then have "main env (initial a2 t) =
      (fst (main env (initial a1 t)), (snd (main env (initial a1 t)))\<lparr>argv := a2\<rparr>)"
    by (simp only: main_argv)
  then show ?thesis by simp
qed

theorem arguments_ignored_witness:
  "\<exists>w'. main (obliging ''905\<newline>'' ''Hi there'') (initial [''--dry-run'', ''-n'', ''1''] 0)
           = ((Returned, [Clicked]), w')
     \<and> navigations (trace w') =
         [''https://web.whatsapp.com/'', ''https://web.whatsapp.com/send?phone=905&text=Hi+there'']"
proof -
  let ?E = "obliging ''905\<newline>'' ''Hi there''"
  from run_one obtain w where
    run: "main ?E (initial [] 0) = ((Returned, [Clicked]), w)"
    and nav: "navigations (trace w) =
      [''https://web.whatsapp.com/'', ''https://web.whatsapp.com/send?phone=905&text=Hi+there'']"
    by auto
  from arguments_ignored[of ?E "[''--dry-run'', ''-n'', ''1'']" 0 "[]"] run
  have "fst (main ?E (initial [''--dry-run'', ''-n'', ''1''] 0)) = (Returned, [Clicked])"
    and "trace (snd (main ?E (initial [''--dry-run'', ''-n'', ''1''] 0))) = trace w"
    by simp_all
  with nav show ?thesis
    by (intro exI[of _ "snd (main ?E (initial [''--dry-run'', ''-n'', ''1''] 0))"]) (simp add: prod_eq_iff)
qed




text \<open>
  C1, as stated, fails: when no send control is found and the message box is not on
  the page either, no key is sent. In this run every call takes ten seconds, so the
  one pass over the five selectors uses up the window; the lookup of the message box
  fails and the number is skipped.
\<close>

theorem enter_fallback_counterexample:
  "fst (main no_send_control (initial [] 0)) = (Returned, [SkippedWithoutButton])
   \<and> page_calls (trace (snd (main no_send_control (initial [] 0)))) =
       Ev (FindElement ByCSSSelector loginCheckSelector) (Element 7)
         # pass_events sendButtonSelectors
             [Absent ''no such element'', Absent ''no such element'', Absent ''no such element'',
              Absent ''no such element'', Absent ''no such element'']
         @ [Ev (FindElement ByCSSSelector messageBoxSelector) (Failed ''no such element'')]
   \<and> only {KSendKeys} (trace (snd (main no_send_control (initial [] 0)))) = []"
  by (simp only: run_no_send_control simp_thms)

text \<open>
  C1, amended. For a number that is not empty and whose send address was navigated to
  with success, the search for the send control goes pass by pass; \<open>ws\<close> are the
  states of the process in which the passes that found nothing began, followed by the
  state after the last of them. Each pass begins while less than 30 seconds have
  passed on the clock since the search began, and tries the five selectors in their
  order: each is looked up and, when an element is found, it is asked whether it is
  displayed and whether it is enabled; the pass stops at the first element that is
  both. A pass that accepted none is followed by a pause of 500 ms, and there are at
  most 60 of them. If a pass finds the control, the search ends with it and the
  control is clicked. Otherwise the search ends, after at least one pass, in a state
  in which 30 seconds or more have passed, and the message box is looked up. If the
  box is found and displayed the Enter key is sent to it; if that succeeds nothing is
  logged and the pass ends with a pause of five seconds. If the box is missing or
  hidden, or sending the key fails, the line \<open>Skipping\<close>, the number, \<open>as message
  could not be sent.\<close> is printed and written to the log file, and the pass ends with
  a pause of two seconds.
\<close>

theorem send_control_search:
  assumes "number \<noteq> []"
    and "wd_Get env (sendURL enc number) w = (None, w1)"
    and "pollSendButton env (clock w1) w1 = (found, w2)"
    and "processNumber env logFile enc number w = (b, w3)"
  shows "length sendButtonSelectors = 5
    \<and> (\<exists>ws fails final.
        length ws = Suc (length fails) \<and> hd ws = w1 \<and> length fails \<le> 60
      \<and> (\<forall>i<length fails.
            clock (ws ! i) - clock w1 < 30 * Second
          \<and> fst (trySelectors env sendButtonSelectors (ws ! i)) = None
          \<and> trace (snd (trySelectors env sendButtonSelectors (ws ! i))) =
              trace (ws ! i) @ pass_events sendButtonSelectors (fails ! i)
          \<and> failed_pass sendButtonSelectors (fails ! i)
          \<and> ws ! Suc i =
              time_Sleep env (500 * Millisecond) (snd (trySelectors env sendButtonSelectors (ws ! i))))
      \<and> trace w2 = trace w1 @ poll_events fails final
      \<and> (case found of
           Some el \<Rightarrow>
             clock (last ws) - clock w1 < 30 * Second
             \<and> trySelectors env sendButtonSelectors (last ws) = (Some el, w2)
             \<and> trace w2 = trace (last ws) @ pass_events sendButtonSelectors final
             \<and> found_pass sendButtonSelectors final el
             \<and> (\<exists>rp rest. page_calls (trace w3) = page_calls (trace w2) @ Ev (Click el) rp # rest)
         | None \<Rightarrow>
             w2 = last ws \<and> final = [] \<and> fails \<noteq> [] \<and> 30 * Second \<le> clock w2 - clock w1
             \<and> (((\<exists>e. page_calls (trace w3) = page_calls (trace w2) @
                        [Ev (FindElement ByCSSSelector messageBoxSelector) (Failed e)])
                  \<or> (\<exists>box. page_calls (trace w3) = page_calls (trace w2) @
                        [Ev (FindElement ByCSSSelector messageBoxSelector) (Element box),
                         Ev (IsDisplayed box) (Flag False)])
                  \<or> (\<exists>box e. page_calls (trace w3) = page_calls (trace w2) @
                        [Ev (FindElement ByCSSSelector messageBoxSelector) (Element box),
                         Ev (IsDisplayed box) (Flag True),
                         Ev (SendKeys box EnterKey) (Failed e)]))
                 \<and> b = SkippedWithoutButton
                 \<and> (\<exists>stamp r0 rp. only {KStdout, KWriteString} (trace w3) =
                       only {KStdout, KWriteString} (trace w2) @
                         [Ev (Stdout (''Skipping '' @ number @ '' as message could not be sent.\<newline>'')) r0,
                          Ev (WriteString logFile
                                (stamp @ ''Skipping '' @ number @ '' as message could not be sent.\<newline>'')) rp])
                 \<and> last (trace w3) = Ev (Sleep (2 * Second)) Done
                \<or> (\<exists>box. page_calls (trace w3) = page_calls (trace w2) @
                        [Ev (FindElement ByCSSSelector messageBoxSelector) (Element box),
                         Ev (IsDisplayed box) (Flag True),
                         Ev (SendKeys box EnterKey) Done])
                 \<and> b = EnterWithoutButton
                 \<and> only {KStdout, KWriteString} (trace w3) = only {KStdout, KWriteString} (trace w2)
                 \<and> last (trace w3) = Ev (Sleep (5 * Second)) Done)))"
proof -
  have five: "length sendButtonSelectors = 5"
    by (simp add: sendButtonSelectors_def)
  have window: "clock w1 - clock w1 < 30 * Second"
    by (simp add: Second_def Millisecond_def)
  from pollSendButton_passes[of "clock w1" w1 env, OF order_refl]
  obtain ws fails final where
    len: "length ws = Suc (length fails)" and hd: "hd ws = w1"
    and each: "\<forall>i<length fails.
            clock (ws ! i) - clock w1 < 30 * Second
          \<and> fst (trySelectors env sendButtonSelectors (ws ! i)) = None
          \<and> trace (snd (trySelectors env sendButtonSelectors (ws ! i))) =
              trace (ws ! i) @ pass_events sendButtonSelectors (fails ! i)
          \<and> failed_pass sendButtonSelectors (fails ! i)
          \<and> ws ! Suc i =
              time_Sleep env (500 * Millisecond) (snd (trySelectors env sendButtonSelectors (ws ! i)))"
    and res: "case found of
         None \<Rightarrow> final = [] \<and> w2 = last ws \<and> 30 * Second \<le> clock (last ws) - clock w1
       | Some el \<Rightarrow> found_pass sendButtonSelectors final el
                  \<and> clock (last ws) - clock w1 < 30 * Second
                  \<and> trySelectors env sendButtonSelectors (last ws) = (Some el, w2)
                  \<and> trace w2 = trace (last ws) @ pass_events sendButtonSelectors final"
    and tr: "trace w2 = trace w1 @ poll_events fails final"
    and bnd: "length fails * (500 * Millisecond) + (clock w1 - clock w1) < 30 * Second + 500 * Millisecond
           \<and> (fails \<noteq> [] \<or> final \<noteq> [])"
    unfolding assms(3) if_P[OF window] fst_conv snd_conv
    by (elim exE conjE) (rule that, assumption+, simp)
  from bnd have le: "length fails \<le> 60"
    by (simp add: Second_def Millisecond_def)
  have step: "processNumber env logFile enc number w =
      (case found of None \<Rightarrow> sendWithoutButton env logFile number w2
       | Some sendButton \<Rightarrow> clickSendButton env logFile number sendButton w2)"
    using assms(1,2,3) by (simp add: processNumber_def sendURL_def)
  have rest: "(case found of
           Some el \<Rightarrow>
             clock (last ws) - clock w1 < 30 * Second
             \<and> trySelectors env sendButtonSelectors (last ws) = (Some el, w2)
             \<and> trace w2 = trace (last ws) @ pass_events sendButtonSelectors final
             \<and> found_pass sendButtonSelectors final el
             \<and> (\<exists>rp rest. page_calls (trace w3) = page_calls (trace w2) @ Ev (Click el) rp # rest)
         | None \<Rightarrow>
             w2 = last ws \<and> final = [] \<and> fails \<noteq> [] \<and> 30 * Second \<le> clock w2 - clock w1
             \<and> (((\<exists>e. page_calls (trace w3) = page_calls (trace w2) @
                        [Ev (FindElement ByCSSSelector messageBoxSelector) (Failed e)])
                  \<or> (\<exists>box. page_calls (trace w3) = page_calls (trace w2) @
                        [Ev (FindElement ByCSSSelector messageBoxSelector) (Element box),
                         Ev (IsDisplayed box) (Flag False)])
                  \<or> (\<exists>box e. page_calls (trace w3) = page_calls (trace w2) @
                        [Ev (FindElement ByCSSSelector messageBoxSelector) (Element box),
                         Ev (IsDisplayed box) (Flag True),
                         Ev (SendKeys box EnterKey) (Failed e)]))
                 \<and> b = SkippedWithoutButton
                 \<and> (\<exists>stamp r0 rp. only {KStdout, KWriteString} (trace w3) =
                       only {KStdout, KWriteString} (trace w2) @
                         [Ev (Stdout (''Skipping '' @ number @ '' as message could not be sent.\<newline>'')) r0,
                          Ev (WriteString logFile
                                (stamp @ ''Skipping '' @ number @ '' as message could not be sent.\<newline>'')) rp])
                 \<and> last (trace w3) = Ev (Sleep (2 * Second)) Done
                \<or> (\<exists>box. page_calls (trace w3) = page_calls (trace w2) @
                        [Ev (FindElement ByCSSSelector messageBoxSelector) (Element box),
                         Ev (IsDisplayed box) (Flag True),
                         Ev (SendKeys box EnterKey) Done])
                 \<and> b = EnterWithoutButton
                 \<and> only {KStdout, KWriteString} (trace w3) = only {KStdout, KWriteString} (trace w2)
                 \<and> last (trace w3) = Ev (Sleep (5 * Second)) Done))"
  proof (cases found)
    case None
    with step assms(4) have s: "sendWithoutButton env logFile number w2 = (b, w3)" by simp
    from res None have r: "final = []" "w2 = last ws" "30 * Second \<le> clock w2 - clock w1"
      by simp_all
    with bnd have ne: "fails \<noteq> []" by simp
    from sendWithoutButton_outcome[of env logFile number w2] r ne None
    show ?thesis unfolding s fst_conv snd_conv by simp
  next
    case (Some el)
    with step assms(4) have s: "clickSendButton env logFile number el w2 = (b, w3)" by simp
    from clickSendButton_page[of env logFile number el w2] res Some
    show ?thesis unfolding s by simp
  qed
  from len hd le each tr rest have "(\<exists>ws fails final.
        length ws = Suc (length fails) \<and> hd ws = w1 \<and> length fails \<le> 60
      \<and> (\<forall>i<length fails.
            clock (ws ! i) - clock w1 < 30 * Second
          \<and> fst (trySelectors env sendButtonSelectors (ws ! i)) = None
          \<and> trace (snd (trySelectors env sendButtonSelectors (ws ! i))) =
              trace (ws ! i) @ pass_events sendButtonSelectors (fails ! i)
          \<and> failed_pass sendButtonSelectors (fails ! i)
          \<and> ws ! Suc i =
              time_Sleep env (500 * Millisecond) (snd (trySelectors env sendButtonSelectors (ws ! i))))
      \<and> trace w2 = trace w1 @ poll_events fails final
      \<and> (case found of
           Some el \<Rightarrow>
             clock (last ws) - clock w1 < 30 * Second
             \<and> trySelectors env sendButtonSelectors (last ws) = (Some el, w2)
             \<and> trace w2 = trace (last ws) @ pass_events sendButtonSelectors final
             \<and> found_pass sendButtonSelectors final el
             \<and> (\<exists>rp rest. page_calls (trace w3) = page_calls (trace w2) @ Ev (Click el) rp # rest)
         | None \<Rightarrow>
             w2 = last ws \<and> final = [] \<and> fails \<noteq> [] \<and> 30 * Second \<le> clock w2 - clock w1
             \<and> (((\<exists>e. page_calls (trace w3) = page_calls (trace w2) @
                        [Ev (FindElement ByCSSSelector messageBoxSelector) (Failed e)])
                  \<or> (\<exists>box. page_calls (trace w3) = page_calls (trace w2) @
                        [Ev (FindElement ByCSSSelector messageBoxSelector) (Element box),
                         Ev (IsDisplayed box) (Flag False)])
                  \<or> (\<exists>box e. page_calls (trace w3) = page_calls (trace w2) @
                        [Ev (FindElement ByCSSSelector messageBoxSelector) (Element box),
                         Ev (IsDisplayed box) (Flag True),
                         Ev (SendKeys box EnterKey) (Failed e)]))
                 \<and> b = SkippedWithoutButton
                 \<and> (\<exists>stamp r0 rp. only {KStdout, KWriteString} (trace w3) =
                       only {KStdout, KWriteString} (trace w2) @
                         [Ev (Stdout (''Skipping '' @ number @ '' as message could not be sent.\<newline>'')) r0,
                          Ev (WriteString logFile
                                (stamp @ ''Skipping '' @ number @ '' as message could not be sent.\<newline>'')) rp])
                 \<and> last (trace w3) = Ev (Sleep (2 * Second)) Done
                \<or> (\<exists>box. page_calls (trace w3) = page_calls (trace w2) @
                        [Ev (FindElement ByCSSSelector messageBoxSelector) (Element box),
                         Ev (IsDisplayed box) (Flag True),
                         Ev (SendKeys box EnterKey) Done])
                 \<and> b = EnterWithoutButton
                 \<and> only {KStdout, KWriteString} (trace w3) = only {KStdout, KWriteString} (trace w2)
                 \<and> last (trace w3) = Ev (Sleep (5 * Second)) Done)))"
    by (intro exI[of _ ws] exI[of _ fails] exI[of _ final] conjI)
  with five show ?thesis by (rule conjI)
qed

theorem send_control_search_witness:
  "(\<exists>w1 w2 w3 ws fails.
      wd_Get no_send_control (sendURL ''Hi'' ''905'') (initial [] 0) = (None, w1)
    \<and> pollSendButton no_send_control (clock w1) w1 = (None, w2)
    \<and> processNumber no_send_control ''log'' ''Hi'' ''905'' (initial [] 0) = (SkippedWithoutButton, w3)
    \<and> length ws = Suc (length fails) \<and> hd ws = w1 \<and> last ws = w2
    \<and> fails \<noteq> [] \<and> length fails \<le> 60
    \<and> trace w2 = trace w1 @ poll_events fails []
    \<and> 30 * Second \<le> clock w2 - clock w1
    \<and> last (trace w3) = Ev (Sleep (2 * Second)) Done)
   \<and> (\<exists>w1 w2 w3 rp rest.
      wd_Get (obliging [] []) (sendURL ''Hi'' ''905'') (initial [] 0) = (None, w1)
    \<and> pollSendButton (obliging [] []) (clock w1) w1 = (Some 7, w2)
    \<and> processNumber (obliging [] []) ''log'' ''Hi'' ''905'' (initial [] 0) = (Clicked, w3)
    \<and> page_calls (trace w3) = page_calls (trace w2) @ Ev (Click 7) rp # rest)"
proof (intro conjI)
  let ?E = "no_send_control"
  define w1 where "w1 = snd (wd_Get ?E (sendURL ''Hi'' ''905'') (initial [] 0))"
  define w2 where "w2 = snd (pollSendButton ?E (clock w1) w1)"
  define w3 where "w3 = snd (processNumber ?E ''log'' ''Hi'' ''905'' (initial [] 0))"
  have g: "wd_Get ?E (sendURL ''Hi'' ''905'') (initial [] 0) = (None, w1)"
    unfolding w1_def using step_no_send_control(1) by (simp add: prod_eq_iff)
  have p: "pollSendButton ?E (clock w1) w1 = (None, w2)"
    unfolding w2_def w1_def using step_no_send_control(2) by (simp add: prod_eq_iff)
  have n: "processNumber ?E ''log'' ''Hi'' ''905'' (initial [] 0) = (SkippedWithoutButton, w3)"
    unfolding w3_def using step_no_send_control(3) by (simp add: prod_eq_iff)
  have ne: "''905'' \<noteq> []" by simp
  from send_control_search[OF ne g p n] obtain ws fails final where
    f: "length ws = Suc (length fails)" "hd ws = w1" "length fails \<le> 60"
      "trace w2 = trace w1 @ poll_events fails final"
    and c: "(case None of
           Some el \<Rightarrow>
             clock (last ws) - clock w1 < 30 * Second
             \<and> trySelectors no_send_control sendButtonSelectors (last ws) = (Some el, w2)
             \<and> trace w2 = trace (last ws) @ pass_events sendButtonSelectors final
             \<and> found_pass sendButtonSelectors final el
             \<and> (\<exists>rp rest. page_calls (trace w3) = page_calls (trace w2) @ Ev (Click el) rp # rest)
         | None \<Rightarrow>
             w2 = last ws \<and> final = [] \<and> fails \<noteq> [] \<and> 30 * Second \<le> clock w2 - clock w1
             \<and> (((\<exists>e. page_calls (trace w3) = page_calls (trace w2) @
                        [Ev (FindElement ByCSSSelector messageBoxSelector) (Failed e)])
                  \<or> (\<exists>box. page_calls (trace w3) = page_calls (trace w2) @
                        [Ev (FindElement ByCSSSelector messageBoxSelector) (Element box),
                         Ev (IsDisplayed box) (Flag False)])
                  \<or> (\<exists>box e. page_calls (trace w3) = page_calls (trace w2) @
                        [Ev (FindElement ByCSSSelector messageBoxSelector) (Element box),
                         Ev (IsDisplayed box) (Flag True),
                         Ev (SendKeys box EnterKey) (Failed e)]))
                 \<and> SkippedWithoutButton = SkippedWithoutButton
                 \<and> (\<exists>stamp r0 rp. only {KStdout, KWriteString} (trace w3) =
                       only {KStdout, KWriteString} (trace w2) @
                         [Ev (Stdout (''Skipping '' @ ''905'' @ '' as message could not be sent.\<newline>'')) r0,
                          Ev (WriteString ''log''
                                (stamp @ ''Skipping '' @ ''905'' @ '' as message could not be sent.\<newline>'')) rp])
                 \<and> last (trace w3) = Ev (Sleep (2 * Second)) Done
                \<or> (\<exists>box. page_calls (trace w3) = page_calls (trace w2) @
                        [Ev (FindElement ByCSSSelector messageBoxSelector) (Element box),
                         Ev (IsDisplayed box) (Flag True),
                         Ev (SendKeys box EnterKey) Done])
                 \<and> SkippedWithoutButton = EnterWithoutButton
                 \<and> only {KStdout, KWriteString} (trace w3) = only {KStdout, KWriteString} (trace w2)
                 \<and> last (trace w3) = Ev (Sleep (5 * Second)) Done))"
    by (elim conjE exE)
  from c have fin: "final = []" and l: "w2 = last ws" and nonempty: "fails \<noteq> []"
    and late: "30 * Second \<le> clock w2 - clock w1"
    and sl: "last (trace w3) = Ev (Sleep (2 * Second)) Done"
    by auto
  from f(4) fin have t: "trace w2 = trace w1 @ poll_events fails []" by simp
  from g p n f(1,2) l[symmetric] nonempty f(3) t late sl
  show "\<exists>w1 w2 w3 ws fails.
      wd_Get no_send_control (sendURL ''Hi'' ''905'') (initial [] 0) = (None, w1)
    \<and> pollSendButton no_send_control (clock w1) w1 = (None, w2)
    \<and> processNumber no_send_control ''log'' ''Hi'' ''905'' (initial [] 0) = (SkippedWithoutButton, w3)
    \<and> length ws = Suc (length fails) \<and> hd ws = w1 \<and> last ws = w2
    \<and> fails \<noteq> [] \<and> length fails \<le> 60
    \<and> trace w2 = trace w1 @ poll_events fails []
    \<and> 30 * Second \<le> clock w2 - clock w1
    \<and> last (trace w3) = Ev (Sleep (2 * Second)) Done"
    by (intro exI[of _ w1] exI[of _ w2] exI[of _ w3] exI[of _ ws] exI[of _ fails] conjI)
next
  let ?E = "obliging [] []"
  define w1 where "w1 = snd (wd_Get ?E (sendURL ''Hi'' ''905'') (initial [] 0))"
  define w2 where "w2 = snd (pollSendButton ?E (clock w1) w1)"
  define w3 where "w3 = snd (processNumber ?E ''log'' ''Hi'' ''905'' (initial [] 0))"
  have g: "wd_Get ?E (sendURL ''Hi'' ''905'') (initial [] 0) = (None, w1)"
    unfolding w1_def using step_obliging(1) by (simp add: prod_eq_iff)
  have p: "pollSendButton ?E (clock w1) w1 = (Some 7, w2)"
    unfolding w2_def w1_def using step_obliging(2) by (simp add: prod_eq_iff)
  have n: "processNumber ?E ''log'' ''Hi'' ''905'' (initial [] 0) = (Clicked, w3)"
    unfolding w3_def using step_obliging(3) by (simp add: prod_eq_iff)
  have ne: "''905'' \<noteq> []" by simp
  from send_control_search[OF ne g p n] obtain ws fails final where
    f: "length ws = Suc (length fails)" "hd ws = w1" "length fails \<le> 60"
      "trace w2 = trace w1 @ poll_events fails final"
    and c: "(case Some 7 of
           Some el \<Rightarrow>
             clock (last ws) - clock w1 < 30 * Second
             \<and> trySelectors (obliging [] []) sendButtonSelectors (last ws) = (Some el, w2)
             \<and> trace w2 = trace (last ws) @ pass_events sendButtonSelectors final
             \<and> found_pass sendButtonSelectors final el
             \<and> (\<exists>rp rest. page_calls (trace w3) = page_calls (trace w2) @ Ev (Click el) rp # rest)
         | None \<Rightarrow>
             w2 = last ws \<and> final = [] \<and> fails \<noteq> [] \<and> 30 * Second \<le> clock w2 - clock w1
             \<and> (((\<exists>e. page_calls (trace w3) = page_calls (trace w2) @
                        [Ev (FindElement ByCSSSelector messageBoxSelector) (Failed e)])
                  \<or> (\<exists>box. page_calls (trace w3) = page_calls (trace w2) @
                        [Ev (FindElement ByCSSSelector messageBoxSelector) (Element box),
                         Ev (IsDisplayed box) (Flag False)])
                  \<or> (\<exists>box e. page_calls (trace w3) = page_calls (trace w2) @
                        [Ev (FindElement ByCSSSelector messageBoxSelector) (Element box),
                         Ev (IsDisplayed box) (Flag True),
                         Ev (SendKeys box EnterKey) (Failed e)]))
                 \<and> Clicked = SkippedWithoutButton
                 \<and> (\<exists>stamp r0 rp. only {KStdout, KWriteString} (trace w3) =
                       only {KStdout, KWriteString} (trace w2) @
                         [Ev (Stdout (''Skipping '' @ ''905'' @ '' as message could not be sent.\<newline>'')) r0,
                          Ev (WriteString ''log''
                                (stamp @ ''Skipping '' @ ''905'' @ '' as message could not be sent.\<newline>'')) rp])
                 \<and> last (trace w3) = Ev (Sleep (2 * Second)) Done
                \<or> (\<exists>box. page_calls (trace w3) = page_calls (trace w2) @
                        [Ev (FindElement ByCSSSelector messageBoxSelector) (Element box),
                         Ev (IsDisplayed box) (Flag True),
                         Ev (SendKeys box EnterKey) Done])
                 \<and> Clicked = EnterWithoutButton
                 \<and> only {KStdout, KWriteString} (trace w3) = only {KStdout, KWriteString} (trace w2)
                 \<and> last (trace w3) = Ev (Sleep (5 * Second)) Done))"
    by (elim conjE exE)
  then obtain rp rest where "page_calls (trace w3) = page_calls (trace w2) @ Ev (Click 7) rp # rest"
    by auto
  with g p n show "\<exists>w1 w2 w3 rp rest.
      wd_Get (obliging [] []) (sendURL ''Hi'' ''905'') (initial [] 0) = (None, w1)
    \<and> pollSendButton (obliging [] []) (clock w1) w1 = (Some 7, w2)
    \<and> processNumber (obliging [] []) ''log'' ''Hi'' ''905'' (initial [] 0) = (Clicked, w3)
    \<and> page_calls (trace w3) = page_calls (trace w2) @ Ev (Click 7) rp # rest"
    by (intro exI[of _ w1] exI[of _ w2] exI[of _ w3] exI[of _ rp] exI[of _ rest] conjI)
qed





end
